theory Spec2Isabelle
  imports Complex_Main "HOL-Library.Log_Nat"
begin

section \<open>Python values, exceptions and floating point\<close>

text \<open>
  The program is one Python module, \<^verbatim>\<open>minimal-mvt.py\<close>: a class
  \<^verbatim>\<open>TileRequestHandler\<close> with the methods \<^verbatim>\<open>pathToTile\<close>,
  \<^verbatim>\<open>tileIsValid\<close>, \<^verbatim>\<open>tileToEnvelope\<close>, \<^verbatim>\<open>envelopeToBoundsSQL\<close>,
  \<^verbatim>\<open>envelopeToSQL\<close>, \<^verbatim>\<open>sqlToPbf\<close>, and the entry point
  \<^verbatim>\<open>lambda_handler\<close>. Every exception the code can raise is a value of
  \<open>error\<close>; a function that can raise returns \<open>error + 'a\<close> with \<open>Inl\<close> the exception.
  \<open>InvalidRef\<close> is not a Python exception: it is the result of dereferencing an address
  that is not in the store, which no Python program can do.
\<close>

datatype error =
    KeyError string
  | ValueError
  | TypeError
  | OverflowError
  | ZeroDivisionError
  | NameError string
  | IndexError
  | InvalidRef
  | ExecutionFailure string

definition bindE :: "error + 'a \<Rightarrow> ('a \<Rightarrow> error + 'b) \<Rightarrow> error + 'b" where
  "bindE m f = (case m of Inl e \<Rightarrow> Inl e | Inr x \<Rightarrow> f x)"

subsection \<open>IEEE 754 binary64, the type of Python's \<^verbatim>\<open>float\<close>\<close>

text \<open>
  A finite double is the rational number it denotes; \<open>NegZero\<close> is \<^verbatim>\<open>-0.0\<close> (so
  \<open>Fin 0\<close> is \<^verbatim>\<open>+0.0\<close>), \<open>PInf\<close> and \<open>NInf\<close> the infinities. Every operation
  computes the exact rational result and rounds it with \<open>fl\<close>: to nearest, ties to even,
  53 bits of precision, exponents from \<open>-1022\<close> (below it the spacing stays
  \<open>2 powi (-1074)\<close>: subnormals), and infinity when the rounded magnitude reaches
  \<open>2 powi 1024\<close>.
\<close>

datatype pyfloat = Fin rat | NegZero | PInf | NInf | NaN

definition rne :: "rat \<Rightarrow> int" where
  "rne q = (let f = \<lfloor>q\<rfloor>; d = q - of_int f in
            if d < 1 / 2 then f
            else if 1 / 2 < d then f + 1
            else if even f then f else f + 1)"

text \<open>\<open>ilog2 q\<close> is the exponent of \<open>q\<close>: \<open>2 powi ilog2 q \<le> q < 2 powi (ilog2 q + 1)\<close> for \<open>0 < q\<close>.\<close>

definition ilog2 :: "rat \<Rightarrow> int" where
  "ilog2 q = (let k = bitlen (fst (quotient_of q)) - bitlen (snd (quotient_of q))
              in if 2 powi k \<le> q then k else k - 1)"

text \<open>
  \<open>ulp_of r\<close> is the spacing of the doubles around \<open>r\<close>, and \<open>round_val r\<close> the multiple
  of it nearest to \<open>r\<close>.
\<close>

definition ulp_of :: "rat \<Rightarrow> rat" where
  "ulp_of r = 2 powi (max (ilog2 \<bar>r\<bar>) (- 1022) - 52)"

definition round_val :: "rat \<Rightarrow> rat" where
  "round_val r = of_int (rne (r / ulp_of r)) * ulp_of r"

definition fl :: "bool \<Rightarrow> rat \<Rightarrow> pyfloat" where
  "fl neg r =
     (if r = 0 then (if neg then NegZero else Fin 0)
      else
        (let v = round_val r
         in if 2 powi 1024 \<le> \<bar>v\<bar> then (if 0 < r then PInf else NInf)
            else if v = 0 then (if r < 0 then NegZero else Fin 0)
            else Fin v))"

fun fval :: "pyfloat \<Rightarrow> rat" where
  "fval (Fin r) = r"
| "fval _ = 0"

fun is_neg :: "pyfloat \<Rightarrow> bool" where
  "is_neg (Fin r) = (r < 0)"
| "is_neg NegZero = True"
| "is_neg NInf = True"
| "is_neg _ = False"

fun is_inf :: "pyfloat \<Rightarrow> bool" where
  "is_inf PInf = True"
| "is_inf NInf = True"
| "is_inf _ = False"

fun is_zero :: "pyfloat \<Rightarrow> bool" where
  "is_zero (Fin r) = (r = 0)"
| "is_zero NegZero = True"
| "is_zero _ = False"

definition signed_inf :: "bool \<Rightarrow> pyfloat" where
  "signed_inf neg = (if neg then NInf else PInf)"

definition signed_zero :: "bool \<Rightarrow> pyfloat" where
  "signed_zero neg = (if neg then NegZero else Fin 0)"

fun fneg :: "pyfloat \<Rightarrow> pyfloat" where
  "fneg (Fin r) = (if r = 0 then NegZero else Fin (- r))"
| "fneg NegZero = Fin 0"
| "fneg PInf = NInf"
| "fneg NInf = PInf"
| "fneg NaN = NaN"

definition fadd :: "pyfloat \<Rightarrow> pyfloat \<Rightarrow> pyfloat" where
  "fadd a b =
     (if a = NaN \<or> b = NaN then NaN
      else if is_inf a then (if is_inf b \<and> a \<noteq> b then NaN else a)
      else if is_inf b then b
      else fl (a = NegZero \<and> b = NegZero) (fval a + fval b))"

definition fsub :: "pyfloat \<Rightarrow> pyfloat \<Rightarrow> pyfloat" where
  "fsub a b = fadd a (fneg b)"

definition fmul :: "pyfloat \<Rightarrow> pyfloat \<Rightarrow> pyfloat" where
  "fmul a b =
     (if a = NaN \<or> b = NaN then NaN
      else if is_inf a \<or> is_inf b then
        (if is_zero a \<or> is_zero b then NaN else signed_inf (is_neg a \<noteq> is_neg b))
      else fl (is_neg a \<noteq> is_neg b) (fval a * fval b))"

text \<open>Python's \<^verbatim>\<open>/\<close> on floats raises when the divisor is zero, whatever the dividend.\<close>

definition fdiv :: "pyfloat \<Rightarrow> pyfloat \<Rightarrow> error + pyfloat" where
  "fdiv a b =
     (if is_zero b then Inl ZeroDivisionError
      else Inr
        (if a = NaN \<or> b = NaN then NaN
         else if is_inf a then (if is_inf b then NaN else signed_inf (is_neg a \<noteq> is_neg b))
         else if is_inf b then signed_zero (is_neg a \<noteq> is_neg b)
         else fl (is_neg a \<noteq> is_neg b) (fval a / fval b)))"

text \<open>
  An \<^verbatim>\<open>int\<close> operand of a float operation is converted first, correctly rounded;
  the conversion raises \<^verbatim>\<open>OverflowError\<close> when the rounded value is out of range.
\<close>

definition float_of_int :: "int \<Rightarrow> error + pyfloat" where
  "float_of_int n =
     (case fl False (of_int n) of
        PInf \<Rightarrow> Inl OverflowError
      | NInf \<Rightarrow> Inl OverflowError
      | f \<Rightarrow> Inr f)"

text \<open>
  Comparison of numbers is exact in Python, also between an \<^verbatim>\<open>int\<close> and a
  \<^verbatim>\<open>float\<close>. A number is placed on the extended line as a pair (class, value) with
  class \<open>-1\<close> for \<open>-inf\<close>, \<open>0\<close> for finite, \<open>1\<close> for \<open>+inf\<close>; NaN has no place and
  every comparison with it is false.
\<close>

fun fext :: "pyfloat \<Rightarrow> (int \<times> rat) option" where
  "fext (Fin r) = Some (0, r)"
| "fext NegZero = Some (0, 0)"
| "fext PInf = Some (1, 0)"
| "fext NInf = Some (- 1, 0)"
| "fext NaN = None"

definition ext_lt :: "(int \<times> rat) option \<Rightarrow> (int \<times> rat) option \<Rightarrow> bool" where
  "ext_lt a b =
     (case (a, b) of
        (Some (c, v), Some (d, w)) \<Rightarrow> c < d \<or> (c = d \<and> v < w)
      | _ \<Rightarrow> False)"

definition ext_ge :: "(int \<times> rat) option \<Rightarrow> (int \<times> rat) option \<Rightarrow> bool" where
  "ext_ge a b =
     (case (a, b) of
        (Some (c, v), Some (d, w)) \<Rightarrow> d < c \<or> (c = d \<and> w \<le> v)
      | _ \<Rightarrow> False)"

text \<open>A number: the result of \<^verbatim>\<open>2 ** zoom\<close> is an \<^verbatim>\<open>int\<close> or a \<^verbatim>\<open>float\<close>.\<close>

datatype pynum = NInt int | NFloat pyfloat

fun num_ext :: "pynum \<Rightarrow> (int \<times> rat) option" where
  "num_ext (NInt n) = Some (0, of_int n)"
| "num_ext (NFloat f) = fext f"

fun num_to_float :: "pynum \<Rightarrow> error + pyfloat" where
  "num_to_float (NInt n) = float_of_int n"
| "num_to_float (NFloat f) = Inr f"

text \<open>
  \<^verbatim>\<open>2 ** z\<close> for an \<^verbatim>\<open>int\<close> \<open>z\<close>: an \<^verbatim>\<open>int\<close> when \<open>0 \<le> z\<close>; otherwise both
  operands are converted to \<^verbatim>\<open>float\<close> and the result is the double nearest to
  \<open>2 powi z\<close>, which is \<^verbatim>\<open>0.0\<close> from \<open>z = -1075\<close> down.
\<close>

definition pow2 :: "int \<Rightarrow> error + pynum" where
  "pow2 z =
     (if 0 \<le> z then Inr (NInt (2 ^ nat z))
      else bindE (float_of_int z) (\<lambda>_. Inr (NFloat (fl False (2 powi z)))))"


section \<open>Tile addresses\<close>

text \<open>
  A tile is a \<^verbatim>\<open>dict\<close> from field names to values. The values the parser stores are
  \<^verbatim>\<open>int\<close>s and one \<^verbatim>\<open>str\<close>, so these are the values of the model's tiles. Python's
  integers are unbounded: \<open>int\<close>.
\<close>

datatype tileval = TInt int | TStr string

type_synonym tile = "string \<rightharpoonup> tileval"

definition subscript :: "(string \<rightharpoonup> 'v) \<Rightarrow> string \<Rightarrow> error + 'v" where
  "subscript d k = (case d k of None \<Rightarrow> Inl (KeyError k) | Some v \<Rightarrow> Inr v)"

subsection \<open>Strings\<close>

text \<open>
  A \<^verbatim>\<open>str\<close> is a sequence of Unicode code points. The path parameters come from the
  request and can hold any of them; a string literal of the source is the sequence of the
  codes of its characters, \<open>str\<close> of it.
\<close>

type_synonym codepoint = nat
type_synonym pystr = "codepoint list"

definition str :: "string \<Rightarrow> pystr" where
  "str s = map of_char s"

subsection \<open>\<^verbatim>\<open>int(s)\<close> on a string\<close>

text \<open>
  \<^verbatim>\<open>int\<close> depends on two things that belong to the interpreter and not to the program:
  its Unicode database, which says which characters are decimal digits, and the limit
  \<^verbatim>\<open>sys.get_int_max_str_digits()\<close> on the number of digits (4300 unless configured,
  0 for no limit, absent from the interpreters older than the limit). The decimal digits of
  a script are ten consecutive code points in every version of the database, so the
  database is given by the code points of the zeros.
\<close>

record interp =
  decimal_zeros :: "codepoint list"
  int_max_str_digits :: nat

text \<open>
  The whitespace of Unicode above the ASCII range, and the decimal value of a character
  above that range. No whitespace character is a digit.
\<close>

definition unicode_space :: "codepoint \<Rightarrow> bool" where
  "unicode_space c =
     (c \<in> set [0x85, 0xA0, 0x1680, 0x2000, 0x2001, 0x2002, 0x2003, 0x2004, 0x2005, 0x2006,
               0x2007, 0x2008, 0x2009, 0x200A, 0x2028, 0x2029, 0x202F, 0x205F, 0x3000])"

definition unicode_decimal :: "codepoint list \<Rightarrow> codepoint \<Rightarrow> nat option" where
  "unicode_decimal zs c =
     (if c < 128 \<or> unicode_space c then None
      else map_option (\<lambda>z. c - z) (find (\<lambda>z. z \<le> c \<and> c < z + 10) zs))"

text \<open>
  A string with a character outside ASCII is first brought to ASCII: the characters below
  127 stay, a whitespace character becomes a blank, a decimal digit the ASCII digit of its
  value, and any other character \<^verbatim>\<open>?\<close>, which no number contains. (The interpreter
  stops the conversion at the first \<^verbatim>\<open>?\<close>; the text is rejected either way.)
\<close>

definition ascii_of :: "interp \<Rightarrow> codepoint \<Rightarrow> codepoint" where
  "ascii_of I c =
     (if c < 127 then c
      else if unicode_space c then 32
      else case unicode_decimal (decimal_zeros I) c of Some d \<Rightarrow> 48 + d | None \<Rightarrow> 63)"

definition to_ascii :: "interp \<Rightarrow> pystr \<Rightarrow> pystr" where
  "to_ascii I s = (if list_all (\<lambda>c. c < 128) s then s else map (ascii_of I) s)"

text \<open>
  The ASCII text is then scanned from left to right: whitespace (tab, line feed, vertical
  tab, form feed, carriage return, blank), an optional sign, digits and underscores,
  whitespace, and the end of the text. \<open>scan_digits\<close> is the loop over the digits and
  underscores, which remembers the previous character: two underscores in a row and an
  underscore at the end are rejected; it returns the digits and the rest of the text. An
  underscore at the start and a text without a digit are rejected too, and so is a number
  of digits above the limit. All of these raise \<^verbatim>\<open>ValueError\<close>.
\<close>

definition is_space :: "codepoint \<Rightarrow> bool" where
  "is_space c = (c \<in> set [9, 10, 11, 12, 13, 32])"

definition is_digit :: "codepoint \<Rightarrow> bool" where
  "is_digit c = (48 \<le> c \<and> c \<le> 57)"

definition digit_val :: "codepoint \<Rightarrow> int" where
  "digit_val c = int c - 48"

fun scan_digits :: "codepoint \<Rightarrow> pystr \<Rightarrow> (pystr \<times> pystr) option" where
  "scan_digits prev [] = (if prev = 95 then None else Some ([], []))"
| "scan_digits prev (c # cs) =
     (if c = 95 then (if prev = 95 then None else scan_digits c cs)
      else if is_digit c then map_option (\<lambda>(ds, r). (c # ds, r)) (scan_digits c cs)
      else if prev = 95 then None
      else Some ([], c # cs))"

definition int_of_ascii :: "nat \<Rightarrow> pystr \<Rightarrow> error + int" where
  "int_of_ascii maxd a =
     (let b = dropWhile is_space a;
          c = (if b \<noteq> [] \<and> (hd b = 43 \<or> hd b = 45) then tl b else b)
      in if c \<noteq> [] \<and> hd c = 95 then Inl ValueError
         else
           (case scan_digits 0 c of
              None \<Rightarrow> Inl ValueError
            | Some (ds, r) \<Rightarrow>
                if 640 < length ds \<and> 0 < maxd \<and> maxd < length ds then Inl ValueError
                else if ds = [] then Inl ValueError
                else if \<not> list_all is_space r then Inl ValueError
                else Inr ((if b \<noteq> [] \<and> hd b = 45 then - 1 else 1) *
                          foldl (\<lambda>n d. 10 * n + digit_val d) 0 ds)))"

definition py_int :: "interp \<Rightarrow> pystr \<Rightarrow> error + int" where
  "py_int I s = int_of_ascii (int_max_str_digits I) (to_ascii I s)"

subsection \<open>\<^verbatim>\<open>pathToTile\<close>\<close>

text \<open>
  \<^verbatim>\<open>params\<close> is the request's path-parameter mapping, from strings to strings, or
  \<^verbatim>\<open>None\<close>. An empty \<^verbatim>\<open>dict\<close> is false in Python, as \<^verbatim>\<open>None\<close> is. The entries
  of the result are evaluated in the order \<^verbatim>\<open>z\<close>, \<^verbatim>\<open>x\<close>, \<^verbatim>\<open>y\<close>, each a lookup
  (\<^verbatim>\<open>KeyError\<close>) followed by the conversion (\<^verbatim>\<open>ValueError\<close>).
\<close>

definition param :: "(pystr \<rightharpoonup> pystr) \<Rightarrow> string \<Rightarrow> error + pystr" where
  "param p k = (case p (str k) of None \<Rightarrow> Inl (KeyError k) | Some v \<Rightarrow> Inr v)"

definition pathToTile :: "interp \<Rightarrow> (pystr \<rightharpoonup> pystr) option \<Rightarrow> error + tile option" where
  "pathToTile I params =
     (case params of
        None \<Rightarrow> Inr None
      | Some p \<Rightarrow>
          if p = Map.empty then Inr None
          else
            bindE (param p ''z'') (\<lambda>zs. bindE (py_int I zs) (\<lambda>z.
            bindE (param p ''x'') (\<lambda>xs. bindE (py_int I xs) (\<lambda>x.
            bindE (param p ''y'') (\<lambda>ys. bindE (py_int I ys) (\<lambda>y.
              Inr (Some [''zoom'' \<mapsto> TInt z, ''x'' \<mapsto> TInt x, ''y'' \<mapsto> TInt y,
                         ''format'' \<mapsto> TStr ''mvt'']))))))))"

subsection \<open>\<^verbatim>\<open>tileIsValid\<close>\<close>

definition tile_pow2 :: "tileval \<Rightarrow> error + pynum" where
  "tile_pow2 v = (case v of TInt z \<Rightarrow> pow2 z | TStr _ \<Rightarrow> Inl TypeError)"

definition tile_ge :: "tileval \<Rightarrow> pynum \<Rightarrow> error + bool" where
  "tile_ge v n =
     (case v of
        TInt i \<Rightarrow> Inr (ext_ge (num_ext (NInt i)) (num_ext n))
      | TStr _ \<Rightarrow> Inl TypeError)"

definition tile_lt :: "tileval \<Rightarrow> pynum \<Rightarrow> error + bool" where
  "tile_lt v n =
     (case v of
        TInt i \<Rightarrow> Inr (ext_lt (num_ext (NInt i)) (num_ext n))
      | TStr _ \<Rightarrow> Inl TypeError)"

text \<open>\<^verbatim>\<open>a or b\<close> evaluates \<open>b\<close> only when \<open>a\<close> is false.\<close>

definition or_else :: "error + bool \<Rightarrow> error + bool \<Rightarrow> error + bool" where
  "or_else a b = bindE a (\<lambda>p. if p then Inr True else b)"

definition tileIsValid :: "tile \<Rightarrow> error + bool" where
  "tileIsValid tile =
     (if \<not> (''x'' \<in> dom tile \<and> ''y'' \<in> dom tile \<and> ''zoom'' \<in> dom tile) then Inr False
      else
        (case tile ''format'' of
           None \<Rightarrow> Inr False
         | Some f \<Rightarrow>
             if f \<notin> set [TStr ''pbf'', TStr ''mvt''] then Inr False
             else
               bindE (subscript tile ''zoom'') (\<lambda>z.
               bindE (tile_pow2 z) (\<lambda>size.
               bindE (or_else (bindE (subscript tile ''x'') (\<lambda>x. tile_ge x size))
                              (bindE (subscript tile ''y'') (\<lambda>y. tile_ge y size))) (\<lambda>too_big.
               if too_big then Inr False
               else
                 bindE (or_else (bindE (subscript tile ''x'') (\<lambda>x. tile_lt x (NInt 0)))
                                (bindE (subscript tile ''y'') (\<lambda>y. tile_lt y (NInt 0)))) (\<lambda>negative.
                 if negative then Inr False else Inr True))))))"


section \<open>The store\<close>

text \<open>
  The envelope and the table configuration are \<^verbatim>\<open>dict\<close> objects that the code passes
  by reference and updates in place, so they live in a store: a list of objects, an
  address being an index, a new object taking the next index. Their values are
  \<^verbatim>\<open>float\<close>s (the envelope) and \<^verbatim>\<open>str\<close>s (the table configuration and the bounds
  expression). A computation takes the store and returns its result, or the exception it
  raised, with the store it leaves: an exception does not undo the updates made before it.
\<close>

datatype objval = OFloat pyfloat | OStr string

type_synonym dict = "string \<rightharpoonup> objval"
type_synonym addr = nat
type_synonym heap = "dict list"
type_synonym 'a py = "heap \<Rightarrow> (error + 'a) \<times> heap"

definition ret :: "'a \<Rightarrow> 'a py" where
  "ret x = (\<lambda>h. (Inr x, h))"

definition raise :: "error \<Rightarrow> 'a py" where
  "raise e = (\<lambda>h. (Inl e, h))"

definition lift :: "error + 'a \<Rightarrow> 'a py" where
  "lift r = (\<lambda>h. (r, h))"

definition bnd :: "'a py \<Rightarrow> ('a \<Rightarrow> 'b py) \<Rightarrow> 'b py" where
  "bnd m f = (\<lambda>h. case m h of (Inl e, h') \<Rightarrow> (Inl e, h') | (Inr x, h') \<Rightarrow> f x h')"

definition new_dict :: "addr py" where
  "new_dict = (\<lambda>h. (Inr (length h), h @ [Map.empty]))"

definition get_dict :: "addr \<Rightarrow> dict py" where
  "get_dict a = (\<lambda>h. if a < length h then (Inr (h ! a), h) else (Inl InvalidRef, h))"

definition dict_copy :: "addr \<Rightarrow> addr py" where
  "dict_copy a = bnd (get_dict a) (\<lambda>d h. (Inr (length h), h @ [d]))"

definition getitem :: "addr \<Rightarrow> string \<Rightarrow> objval py" where
  "getitem a k = bnd (get_dict a) (\<lambda>d. lift (subscript d k))"

definition setitem :: "addr \<Rightarrow> string \<Rightarrow> objval \<Rightarrow> unit py" where
  "setitem a k v =
     (\<lambda>h. if a < length h then (Inr (), h[a := (h ! a)(k \<mapsto> v)]) else (Inl InvalidRef, h))"

section \<open>\<^verbatim>\<open>tileToEnvelope\<close>\<close>

text \<open>
  The literal \<^verbatim>\<open>20037508.3427892\<close> denotes the double nearest to that decimal. The
  operands that are \<^verbatim>\<open>int\<close>s (\<^verbatim>\<open>-1\<close>, \<^verbatim>\<open>2 ** zoom\<close>, \<^verbatim>\<open>x\<close>, \<^verbatim>\<open>x + 1\<close>, ...)
  are converted to \<^verbatim>\<open>float\<close> by the operation that meets them.
\<close>

definition worldMercMax :: pyfloat where
  "worldMercMax = fl False (200375083427892 / 10000000)"

definition int_times_float :: "int \<Rightarrow> pyfloat \<Rightarrow> error + pyfloat" where
  "int_times_float n f = bindE (float_of_int n) (\<lambda>a. Inr (fmul a f))"

definition float_div_num :: "pyfloat \<Rightarrow> pynum \<Rightarrow> error + pyfloat" where
  "float_div_num f n = bindE (num_to_float n) (\<lambda>b. fdiv f b)"

definition float_times_tile :: "pyfloat \<Rightarrow> tileval \<Rightarrow> error + pyfloat" where
  "float_times_tile f v =
     (case v of
        TInt n \<Rightarrow> bindE (float_of_int n) (\<lambda>b. Inr (fmul f b))
      | TStr _ \<Rightarrow> Inl TypeError)"

definition tile_plus_one :: "tileval \<Rightarrow> error + tileval" where
  "tile_plus_one v = (case v of TInt n \<Rightarrow> Inr (TInt (n + 1)) | TStr _ \<Rightarrow> Inl TypeError)"

definition tileToEnvelope :: "tile \<Rightarrow> addr py" where
  "tileToEnvelope tile =
     bnd (lift (int_times_float (- 1) worldMercMax)) (\<lambda>worldMercMin.
     bnd (ret (fsub worldMercMax worldMercMin)) (\<lambda>worldMercSize.
     bnd (lift (bindE (subscript tile ''zoom'') tile_pow2)) (\<lambda>worldTileSize.
     bnd (lift (float_div_num worldMercSize worldTileSize)) (\<lambda>tileMercSize.
     bnd new_dict (\<lambda>env.
     bnd (lift (bindE (subscript tile ''x'') (\<lambda>x.
                bindE (float_times_tile tileMercSize x) (\<lambda>w.
                Inr (fadd worldMercMin w))))) (\<lambda>xmin.
     bnd (setitem env ''xmin'' (OFloat xmin)) (\<lambda>_.
     bnd (lift (bindE (subscript tile ''x'') (\<lambda>x.
                bindE (tile_plus_one x) (\<lambda>x1.
                bindE (float_times_tile tileMercSize x1) (\<lambda>w.
                Inr (fadd worldMercMin w)))))) (\<lambda>xmax.
     bnd (setitem env ''xmax'' (OFloat xmax)) (\<lambda>_.
     bnd (lift (bindE (subscript tile ''y'') (\<lambda>y.
                bindE (tile_plus_one y) (\<lambda>y1.
                bindE (float_times_tile tileMercSize y1) (\<lambda>w.
                Inr (fsub worldMercMax w)))))) (\<lambda>ymin.
     bnd (setitem env ''ymin'' (OFloat ymin)) (\<lambda>_.
     bnd (lift (bindE (subscript tile ''y'') (\<lambda>y.
                bindE (float_times_tile tileMercSize y) (\<lambda>w.
                Inr (fsub worldMercMax w))))) (\<lambda>ymax.
     bnd (setitem env ''ymax'' (OFloat ymax)) (\<lambda>_.
     ret env)))))))))))))"

section \<open>Query construction\<close>

text \<open>
  \<^verbatim>\<open>str.format(**d)\<close> on a template whose replacement fields are plain names: the
  template is its literal pieces and fields in order, each field replaced by the
  formatted value of that key, \<^verbatim>\<open>KeyError\<close> at the first field that \<open>d\<close> lacks. A
  \<^verbatim>\<open>float\<close> is formatted by \<^verbatim>\<open>repr\<close>, the shortest decimal that reads back as the
  same double; that function of the language is the parameter \<open>repr\<close>.
\<close>

datatype piece = Lit string | Field string

definition fmt_obj :: "(pyfloat \<Rightarrow> string) \<Rightarrow> objval \<Rightarrow> string" where
  "fmt_obj repr v = (case v of OFloat f \<Rightarrow> repr f | OStr s \<Rightarrow> s)"

fun format_tmpl :: "(pyfloat \<Rightarrow> string) \<Rightarrow> piece list \<Rightarrow> dict \<Rightarrow> error + string" where
  "format_tmpl repr [] d = Inr []"
| "format_tmpl repr (Lit s # ps) d = bindE (format_tmpl repr ps d) (\<lambda>r. Inr (s @ r))"
| "format_tmpl repr (Field k # ps) d =
     bindE (subscript d k) (\<lambda>v.
     bindE (format_tmpl repr ps d) (\<lambda>r. Inr (fmt_obj repr v @ r)))"

definition nl :: string where
  "nl = [CHR 0x0A]"

definition bounds_tmpl :: "piece list" where
  "bounds_tmpl =
     [Lit ''ST_Segmentize(ST_MakeEnvelope('', Field ''xmin'', Lit '', '', Field ''ymin'',
      Lit '', '', Field ''xmax'', Lit '', '', Field ''ymax'', Lit '', 3857),'',
      Field ''segSize'', Lit '')'']"

definition obj_sub :: "objval \<Rightarrow> objval \<Rightarrow> error + pyfloat" where
  "obj_sub a b =
     (case (a, b) of (OFloat x, OFloat y) \<Rightarrow> Inr (fsub x y) | _ \<Rightarrow> Inl TypeError)"

definition float_div_int :: "pyfloat \<Rightarrow> int \<Rightarrow> error + pyfloat" where
  "float_div_int f n = bindE (float_of_int n) (\<lambda>b. fdiv f b)"

definition DENSIFY_FACTOR :: int where
  "DENSIFY_FACTOR = 4"

definition envelopeToBoundsSQL :: "(pyfloat \<Rightarrow> string) \<Rightarrow> addr \<Rightarrow> string py" where
  "envelopeToBoundsSQL repr env =
     bnd (getitem env ''xmax'') (\<lambda>xmax.
     bnd (getitem env ''xmin'') (\<lambda>xmin.
     bnd (lift (obj_sub xmax xmin)) (\<lambda>width.
     bnd (lift (float_div_int width DENSIFY_FACTOR)) (\<lambda>segSize.
     bnd (setitem env ''segSize'' (OFloat segSize)) (\<lambda>_.
     bnd (get_dict env) (\<lambda>kw.
     lift (format_tmpl repr bounds_tmpl kw)))))))"

definition sql_tmpl :: "piece list" where
  "sql_tmpl =
     [Lit (nl @ ''            WITH '' @ nl @ ''            bounds AS ('' @ nl @
           ''                SELECT ''),
      Field ''env'',
      Lit ('' AS geom, '' @ nl @ ''                       ''),
      Field ''env'',
      Lit (''::box2d AS b2d'' @ nl @ ''            ),'' @ nl @ ''            mvtgeom AS ('' @ nl @
           ''                SELECT ST_AsMVTGeom(ST_Transform(ST_Force2D(t.''),
      Field ''geomColumn'',
      Lit (''), 3857), bounds.b2d) AS geom, '' @ nl @ ''                       ''),
      Field ''attrColumns'',
      Lit (nl @ ''                FROM ''),
      Field ''table'',
      Lit ('' t, bounds'' @ nl @ ''                WHERE ST_Intersects(t.''),
      Field ''geomColumn'',
      Lit '', ST_Transform(bounds.geom, '',
      Field ''srid'',
      Lit (''))'' @ nl @ ''            ) '' @ nl @
           ''            SELECT ST_AsMVT(mvtgeom.*) FROM mvtgeom'' @ nl @ ''        '')]"

text \<open>
  \<open>TABLE\<close> is the address of the module's global \<^verbatim>\<open>TABLE\<close>, the table configuration
  built once when the module is loaded.
\<close>

definition envelopeToSQL :: "(pyfloat \<Rightarrow> string) \<Rightarrow> addr \<Rightarrow> addr \<Rightarrow> string py" where
  "envelopeToSQL repr TABLE env =
     bnd (dict_copy TABLE) (\<lambda>tbl.
     bnd (envelopeToBoundsSQL repr env) (\<lambda>bounds.
     bnd (setitem tbl ''env'' (OStr bounds)) (\<lambda>_.
     bnd (get_dict tbl) (\<lambda>kw.
     lift (format_tmpl repr sql_tmpl kw)))))"


section \<open>Execution and the request handler\<close>

text \<open>
  The query is run by the AWS Data API client, a collaborator outside the program: the
  parameter \<open>rds\<close> gives, for the connection settings and a query, the exception the call
  raises or the \<^verbatim>\<open>records\<close> entry of its response (\<open>None\<close> when the response has
  none), a list of rows, each a list of fields, each a \<^verbatim>\<open>dict\<close>.
\<close>

record database =
  cluster_arn :: string
  secret_arn :: string
  database_name :: string

type_synonym 'b records = "(string \<rightharpoonup> 'b) list list"

definition sqlToPbf ::
  "(database \<Rightarrow> string \<Rightarrow> error + 'b records option) \<Rightarrow> database \<Rightarrow> string \<Rightarrow> error + 'b" where
  "sqlToPbf rds db sql =
     bindE (rds db sql) (\<lambda>pbf.
       case pbf of
         None \<Rightarrow> Inl (KeyError ''records'')
       | Some rows \<Rightarrow>
           (case rows of
              [] \<Rightarrow> Inl IndexError
            | row # _ \<Rightarrow>
                (case row of
                   [] \<Rightarrow> Inl IndexError
                 | field # _ \<Rightarrow> subscript field ''blobValue'')))"

record response =
  statusCode :: int
  isBase64Encoded :: bool
  headers :: "(string \<times> string) list"
  body :: string

text \<open>
  The branch for an invalid tile returns a \<^verbatim>\<open>dict\<close> whose entries are evaluated in
  order: \<^verbatim>\<open>'statusCode': 400\<close>, \<^verbatim>\<open>'headers': {}\<close>, and
  \<^verbatim>\<open>'body': json.dumps("invalid tile path: %s" % (self.path))\<close>. \<^verbatim>\<open>lambda_handler\<close>
  is a function of the module, with the parameters \<^verbatim>\<open>event\<close> and \<^verbatim>\<open>context\<close> and
  the local \<^verbatim>\<open>tile\<close>; the module's globals are \<^verbatim>\<open>json\<close>, \<^verbatim>\<open>boto3\<close>, \<^verbatim>\<open>base64\<close>,
  \<^verbatim>\<open>os\<close>, \<^verbatim>\<open>TileRequestHandler\<close>, \<^verbatim>\<open>DATABASE\<close>, \<^verbatim>\<open>TABLE\<close>, \<^verbatim>\<open>mvt\<close> and
  \<^verbatim>\<open>lambda_handler\<close>. The name \<^verbatim>\<open>self\<close> is none of them and no builtin, so evaluating
  the third entry raises \<^verbatim>\<open>NameError\<close> and the statement returns nothing.
\<close>

definition invalid_tile_response :: "response py" where
  "invalid_tile_response = raise (NameError ''self'')"

text \<open>
  \<open>b64\<close> is \<^verbatim>\<open>base64.b64encode(pbf).decode("utf-8")\<close>, and \<open>I\<close> the interpreter
  that \<^verbatim>\<open>int\<close> depends on. The event is the mapping the gateway passes, of which the
  handler reads \<^verbatim>\<open>pathParameters\<close>: a mapping of strings or \<^verbatim>\<open>None\<close>. The two
  \<^verbatim>\<open>print\<close> calls write to the log and are left out.
\<close>

type_synonym event = "string \<rightharpoonup> (pystr \<rightharpoonup> pystr) option"

definition lambda_handler ::
  "interp \<Rightarrow> (database \<Rightarrow> string \<Rightarrow> error + 'b records option) \<Rightarrow> ('b \<Rightarrow> string) \<Rightarrow>
   (pyfloat \<Rightarrow> string) \<Rightarrow> addr \<Rightarrow> database \<Rightarrow> event \<Rightarrow> response py" where
  "lambda_handler I rds b64 repr TABLE DATABASE event =
     bnd (lift (subscript event ''pathParameters'')) (\<lambda>params.
     bnd (lift (pathToTile I params)) (\<lambda>tile.
       case tile of
         None \<Rightarrow> invalid_tile_response
       | Some t \<Rightarrow>
           bnd (lift (if t = Map.empty then Inr False else tileIsValid t)) (\<lambda>valid.
             if \<not> valid then invalid_tile_response
             else
               bnd (tileToEnvelope t) (\<lambda>env.
               bnd (envelopeToSQL repr TABLE env) (\<lambda>sql.
               bnd (lift (sqlToPbf rds DATABASE sql)) (\<lambda>pbf.
               ret \<lparr>statusCode = 200,
                    isBase64Encoded = True,
                    headers =
                      [(''Content-type'', ''application/vnd.mapbox-vector-tile''),
                       (''Access-Control-Allow-Headers'', ''Content-Type''),
                       (''Access-Control-Allow-Origin'', ''*''),
                       (''Access-Control-Allow-Methods'', ''OPTIONS,GET'')],
                    body = b64 pbf\<rparr>))))))"


section \<open>Vocabulary of the statements\<close>

text \<open>
  The spec's \<open>MalformedAddress\<close> condition is a parse failure: the parser raises
  \<^verbatim>\<open>KeyError\<close> for an absent key and \<^verbatim>\<open>ValueError\<close> for a value that \<^verbatim>\<open>int\<close> rejects.
\<close>

fun is_malformed :: "error \<Rightarrow> bool" where
  "is_malformed (KeyError _) = True"
| "is_malformed ValueError = True"
| "is_malformed _ = False"

text \<open>
  A numeric string, in the words of the language reference for \<^verbatim>\<open>int\<close>: an integer
  literal in radix 10, optionally preceded by \<^verbatim>\<open>+\<close> or \<^verbatim>\<open>-\<close> with no space in
  between, surrounded by whitespace, with single underscores between digits. So: the
  string without the whitespace at its two ends and without its sign, split at its
  underscores, is one or more groups, each of one or more decimal digits. The whitespace
  characters and the digits are those of Unicode; \<open>split_on\<close> is \<^verbatim>\<open>str.split\<close>.
\<close>

definition space_char :: "codepoint \<Rightarrow> bool" where
  "space_char c =
     ((9 \<le> c \<and> c \<le> 13) \<or> c = 32 \<or> c = 0x85 \<or> c = 0xA0 \<or> c = 0x1680 \<or>
      (0x2000 \<le> c \<and> c \<le> 0x200A) \<or> c = 0x2028 \<or> c = 0x2029 \<or> c = 0x202F \<or> c = 0x205F \<or>
      c = 0x3000)"

definition digit_value :: "interp \<Rightarrow> codepoint \<Rightarrow> nat option" where
  "digit_value I c =
     (if 48 \<le> c \<and> c \<le> 57 then Some (c - 48) else unicode_decimal (decimal_zeros I) c)"

definition strip_ws :: "pystr \<Rightarrow> pystr" where
  "strip_ws s = rev (dropWhile space_char (rev (dropWhile space_char s)))"

definition unsigned :: "pystr \<Rightarrow> pystr" where
  "unsigned t = (if t \<noteq> [] \<and> (hd t = 43 \<or> hd t = 45) then tl t else t)"

fun split_on :: "'a \<Rightarrow> 'a list \<Rightarrow> 'a list list" where
  "split_on x [] = [[]]"
| "split_on x (c # cs) =
     (if c = x then [] # split_on x cs
      else (c # hd (split_on x cs)) # tl (split_on x cs))"

definition integer_literal :: "interp \<Rightarrow> pystr \<Rightarrow> bool" where
  "integer_literal I s =
     list_all (\<lambda>g. g \<noteq> [] \<and> list_all (\<lambda>c. digit_value I c \<noteq> None) g)
       (split_on 95 (unsigned (strip_ws s)))"

text \<open>The digits of a literal, the integer it denotes, and the limit on their number.\<close>

definition literal_digits :: "interp \<Rightarrow> pystr \<Rightarrow> nat list" where
  "literal_digits I s = List.map_filter (digit_value I) (unsigned (strip_ws s))"

definition literal_value :: "interp \<Rightarrow> pystr \<Rightarrow> int" where
  "literal_value I s =
     (if strip_ws s \<noteq> [] \<and> hd (strip_ws s) = 45 then - 1 else 1) *
     foldl (\<lambda>n d. 10 * n + int d) 0 (literal_digits I s)"

definition within_digit_limit :: "interp \<Rightarrow> pystr \<Rightarrow> bool" where
  "within_digit_limit I s =
     (let n = length (literal_digits I s)
      in \<not> (640 < n \<and> 0 < int_max_str_digits I \<and> int_max_str_digits I < n))"

definition absent_or_non_numeric :: "interp \<Rightarrow> (pystr \<rightharpoonup> pystr) \<Rightarrow> string \<Rightarrow> bool" where
  "absent_or_non_numeric I p k =
     (case p (str k) of None \<Rightarrow> True | Some v \<Rightarrow> \<not> integer_literal I v)"

definition numeric_within_limit :: "interp \<Rightarrow> (pystr \<rightharpoonup> pystr) \<Rightarrow> string \<Rightarrow> bool" where
  "numeric_within_limit I p k =
     (case p (str k) of
        None \<Rightarrow> False
      | Some v \<Rightarrow> integer_literal I v \<and> within_digit_limit I v)"

definition param_value :: "interp \<Rightarrow> (pystr \<rightharpoonup> pystr) \<Rightarrow> string \<Rightarrow> int" where
  "param_value I p k = (case p (str k) of None \<Rightarrow> 0 | Some v \<Rightarrow> literal_value I v)"

text \<open>
  An interpreter: Python 3.11, whose database is Unicode 14.0, with the default limit.
  The zeros are those of the 65 scripts and styles with decimal digits above ASCII, from
  ARABIC-INDIC DIGIT ZERO to SEGMENTED DIGIT ZERO.
\<close>

definition unicode_14_decimal_zeros :: "codepoint list" where
  "unicode_14_decimal_zeros =
     [0x660, 0x6F0, 0x7C0, 0x966, 0x9E6, 0xA66, 0xAE6, 0xB66, 0xBE6, 0xC66, 0xCE6, 0xD66,
      0xDE6, 0xE50, 0xED0, 0xF20, 0x1040, 0x1090, 0x17E0, 0x1810, 0x1946, 0x19D0, 0x1A80,
      0x1A90, 0x1B50, 0x1BB0, 0x1C40, 0x1C50, 0xA620, 0xA8D0, 0xA900, 0xA9D0, 0xA9F0, 0xAA50,
      0xABF0, 0xFF10, 0x104A0, 0x10D30, 0x11066, 0x110F0, 0x11136, 0x111D0, 0x112F0, 0x11450,
      0x114D0, 0x11650, 0x116C0, 0x11730, 0x118E0, 0x11950, 0x11C50, 0x11D50, 0x11DA0,
      0x16A60, 0x16AC0, 0x16B50, 0x1D7CE, 0x1D7D8, 0x1D7E2, 0x1D7EC, 0x1D7F6, 0x1E140,
      0x1E2F0, 0x1E950, 0x1FBF0]"

definition python_3_11 :: interp where
  "python_3_11 = \<lparr>decimal_zeros = unicode_14_decimal_zeros, int_max_str_digits = 4300\<rparr>"

text \<open>The tile that \<^verbatim>\<open>pathToTile\<close> builds for the integers \<open>z\<close>, \<open>x\<close>, \<open>y\<close>.\<close>

definition tile_of :: "int \<Rightarrow> int \<Rightarrow> int \<Rightarrow> tile" where
  "tile_of z x y =
     [''zoom'' \<mapsto> TInt z, ''x'' \<mapsto> TInt x, ''y'' \<mapsto> TInt y, ''format'' \<mapsto> TStr ''mvt'']"

text \<open>A float that is neither an infinity nor NaN, and whose value is then \<open>fval\<close>.\<close>

definition finite_float :: "pyfloat \<Rightarrow> bool" where
  "finite_float f = (f \<noteq> NaN \<and> \<not> is_inf f)"

text \<open>
  The envelope the spec's formula gives, read in the arithmetic of the program (doubles):
  the world bounds are the doubles that the decimals \<open>20037508.3427892\<close> and
  \<open>-20037508.3427892\<close> denote, an integer operand is converted to the nearest double, and
  \<open>tileWidth = worldSize / 2^z\<close>, \<open>xmin = worldMin + tileWidth * x\<close>,
  \<open>xmax = worldMin + tileWidth * (x + 1)\<close>, \<open>ymin = worldMax - tileWidth * (y + 1)\<close>,
  \<open>ymax = worldMax - tileWidth * y\<close>.
\<close>

definition to_float :: "int \<Rightarrow> pyfloat" where
  "to_float n = fl False (of_int n)"

definition fquot :: "pyfloat \<Rightarrow> pyfloat \<Rightarrow> pyfloat" where
  "fquot a b = (case fdiv a b of Inl _ \<Rightarrow> NaN | Inr q \<Rightarrow> q)"

definition spec_worldMax :: pyfloat where
  "spec_worldMax = fl False (200375083427892 / 10000000)"

definition spec_worldMin :: pyfloat where
  "spec_worldMin = fneg spec_worldMax"

definition spec_envelope :: "int \<Rightarrow> int \<Rightarrow> int \<Rightarrow> dict" where
  "spec_envelope z x y =
     (let worldSize = fsub spec_worldMax spec_worldMin;
          tileWidth = fquot worldSize (to_float (2 ^ nat z))
      in [''xmin'' \<mapsto> OFloat (fadd spec_worldMin (fmul tileWidth (to_float x))),
          ''xmax'' \<mapsto> OFloat (fadd spec_worldMin (fmul tileWidth (to_float (x + 1)))),
          ''ymin'' \<mapsto> OFloat (fsub spec_worldMax (fmul tileWidth (to_float (y + 1)))),
          ''ymax'' \<mapsto> OFloat (fsub spec_worldMax (fmul tileWidth (to_float y)))])"

text \<open>
  The exact values of the doubles \<^verbatim>\<open>worldMercMax\<close> and \<^verbatim>\<open>worldMercSize\<close>:
  \<open>20037508.342789201...\<close> and twice that.
\<close>

definition world_max :: rat where
  "world_max = 5378777689100423 / 268435456"

definition world_size :: rat where
  "world_size = 5378777689100423 / 134217728"

text \<open>
  The Query Builder on a tile, as \<^verbatim>\<open>lambda_handler\<close> composes it:
  \<^verbatim>\<open>envelopeToSQL(tileToEnvelope(tile))\<close>.
\<close>

definition build_query :: "(pyfloat \<Rightarrow> string) \<Rightarrow> addr \<Rightarrow> tile \<Rightarrow> string py" where
  "build_query repr TABLE tile = bnd (tileToEnvelope tile) (\<lambda>env. envelopeToSQL repr TABLE env)"

section \<open>Properties\<close>

subsection \<open>Evaluation rules\<close>

lemma bindE_simps:
  "bindE (Inl e) f = Inl e"
  "bindE (Inr x) f = f x"
  by (simp_all add: bindE_def)

lemma subscript_simps:
  "d k = None \<Longrightarrow> subscript d k = Inl (KeyError k)"
  "d k = Some v \<Longrightarrow> subscript d k = Inr v"
  by (simp_all add: subscript_def)

lemma pow2_nonneg: "0 \<le> z \<Longrightarrow> pow2 z = Inr (NInt (2 ^ nat z))"
  by (simp add: pow2_def)

lemma monad_simps:
  "bnd (lift (Inl e)) f h = (Inl e, h)"
  "bnd (lift (Inr x)) f h = f x h"
  "bnd (ret x) f h = f x h"
  "bnd (raise e) f h = (Inl e, h)"
  "ret x h = (Inr x, h)"
  "raise e h = (Inl e, h)"
  "lift r h = (r, h)"
  by (simp_all add: bnd_def lift_def ret_def raise_def)

lemma setitem_last: "setitem (length h) k v (h @ [d]) = (Inr (), h @ [d(k \<mapsto> v)])"
  by (simp add: setitem_def)

subsection \<open>Rounding\<close>

text \<open>
  The exponent function is correct, the rounded value is within half a spacing of the
  exact one, and a value on the grid is kept. A concrete rounding is then settled by
  naming its exponent and its multiple of the spacing.
\<close>

lemma bitlen_powi_bounds:
  assumes "0 < (a::int)"
  shows "(2::rat) powi (bitlen a - 1) \<le> of_int a" and "of_int a < (2::rat) powi (bitlen a)"
proof -
  from bitlen_bounds[OF assms] have 1: "2 ^ nat (bitlen a - 1) \<le> a" and 2: "a < 2 ^ nat (bitlen a)" by auto
  have b1: "1 \<le> bitlen a" using assms bitlen_eq_zero_iff[of a] bitlen_nonneg[of a] by linarith
  have "(2::rat) powi (bitlen a - 1) = 2 ^ nat (bitlen a - 1)" using b1 by (simp add: power_int_nonneg_exp)
  also have "\<dots> = of_int (2 ^ nat (bitlen a - 1))" by simp
  also have "\<dots> \<le> of_int a" using 1 by (simp only: of_int_le_iff)
  finally show "(2::rat) powi (bitlen a - 1) \<le> of_int a" .
  have "(of_int a :: rat) < of_int (2 ^ nat (bitlen a))" using 2 by (simp only: of_int_less_iff)
  also have "\<dots> = 2 powi (bitlen a)" using b1 by (simp add: power_int_nonneg_exp)
  finally show "of_int a < (2::rat) powi (bitlen a)" .
qed

lemma ilog2_bounds:
  assumes "0 < q"
  shows "2 powi (ilog2 q) \<le> q \<and> q < 2 powi (ilog2 q + 1)"
proof -
  obtain a b where ab: "quotient_of q = (a, b)" by fastforce
  then have b: "0 < b" by (rule quotient_of_denom_pos)
  have q: "q = of_int a / of_int b" using ab by (rule quotient_of_div)
  have a: "0 < a" using assms b q by (simp add: zero_less_divide_iff)
  let ?k = "bitlen a - bitlen b"
  have bp: "(2::rat) powi (bitlen b - 1) \<le> of_int b" "of_int b < (2::rat) powi (bitlen b)"
    using bitlen_powi_bounds[OF b] by auto
  have ap: "(2::rat) powi (bitlen a - 1) \<le> of_int a" "of_int a < (2::rat) powi (bitlen a)"
    using bitlen_powi_bounds[OF a] by auto
  have bpos: "(0::rat) < of_int b" using b by simp
  have up: "q < 2 powi (?k + 1)"
  proof -
    have "q < 2 powi (bitlen a) / of_int b" unfolding q using ap(2) bpos by (simp add: divide_strict_right_mono)
    also have "\<dots> \<le> 2 powi (bitlen a) / 2 powi (bitlen b - 1)"
      using bp(1) by (intro divide_left_mono) (auto intro!: mult_pos_pos bpos)
    also have "\<dots> = 2 powi (?k + 1)" by (simp add: power_int_diff[symmetric] algebra_simps)
    finally show ?thesis .
  qed
  have lo: "2 powi (?k - 1) \<le> q"
  proof -
    have "(2::rat) powi (?k - 1) = 2 powi (bitlen a - 1) / 2 powi (bitlen b)"
      by (simp add: power_int_diff[symmetric] algebra_simps)
    also have "\<dots> \<le> of_int a / 2 powi (bitlen b)" using ap(1) by (simp add: divide_right_mono)
    also have "\<dots> \<le> of_int a / of_int b"
      using bp(2) a bpos by (intro divide_left_mono) (auto intro!: mult_pos_pos)
    finally show ?thesis unfolding q .
  qed
  show ?thesis
    using up lo ab by (auto simp add: ilog2_def Let_def)
qed

lemma ilog2_unique:
  assumes "0 < q" and "2 powi k \<le> q" and "q < 2 powi (k + 1)"
  shows "ilog2 q = k"
proof -
  let ?j = "ilog2 q"
  from ilog2_bounds[OF assms(1)] have j: "2 powi ?j \<le> q" "q < 2 powi (?j + 1)" by auto
  have "(2::rat) powi ?j < 2 powi (k + 1)" using j(1) assms(3) by simp
  then have 1: "?j < k + 1" by (metis not_less one_le_numeral power_int_increasing)
  have "(2::rat) powi k < 2 powi (?j + 1)" using j(2) assms(2) by simp
  then have 2: "k < ?j + 1" by (metis not_less one_le_numeral power_int_increasing)
  from 1 2 show ?thesis by simp
qed

lemma rne_error: "\<bar>of_int (rne q) - q\<bar> \<le> 1 / 2"
proof -
  have "of_int \<lfloor>q\<rfloor> \<le> q" "q < of_int \<lfloor>q\<rfloor> + 1" by linarith+
  then show ?thesis by (auto simp add: rne_def Let_def)
qed

lemma rne_of_int: "rne (of_int n) = n"
  by (simp add: rne_def Let_def)

lemma rne_mono: "p \<le> q \<Longrightarrow> rne p \<le> rne q"
proof -
  assume pq: "p \<le> q"
  have fm: "\<lfloor>p\<rfloor> \<le> \<lfloor>q\<rfloor>" using pq by (rule floor_mono)
  have b: "of_int \<lfloor>p\<rfloor> \<le> p" "p < of_int \<lfloor>p\<rfloor> + 1" "of_int \<lfloor>q\<rfloor> \<le> q" "q < of_int \<lfloor>q\<rfloor> + 1" by linarith+
  consider "\<lfloor>p\<rfloor> = \<lfloor>q\<rfloor>" | "\<lfloor>p\<rfloor> + 1 \<le> \<lfloor>q\<rfloor>" using fm by linarith
  then show ?thesis
  proof cases
    case 1
    then show ?thesis using pq by (auto simp add: rne_def Let_def)
  next
    case 2
    then show ?thesis by (auto simp add: rne_def Let_def)
  qed
qed



lemma ulp_of_pos: "0 < ulp_of r"
  by (simp add: ulp_of_def zero_less_power_int)

lemma round_val_error: "\<bar>round_val r - r\<bar> \<le> ulp_of r / 2"
proof -
  let ?u = "ulp_of r"
  have u: "0 < ?u" by (rule ulp_of_pos)
  have "round_val r - r = (of_int (rne (r / ?u)) - r / ?u) * ?u"
    using u by (simp add: round_val_def algebra_simps)
  then have "\<bar>round_val r - r\<bar> = \<bar>of_int (rne (r / ?u)) - r / ?u\<bar> * ?u"
    using u by (simp add: abs_mult)
  also have "\<dots> \<le> (1 / 2) * ?u"
    using rne_error[of "r / ?u"] u by (intro mult_right_mono) auto
  finally show ?thesis by simp
qed

lemma round_val_0: "round_val 0 = 0"
  by (simp add: round_val_def rne_of_int[of 0, simplified])

lemma round_val_nonneg: "0 \<le> r \<Longrightarrow> 0 \<le> round_val r"
proof -
  assume "0 \<le> r"
  then have "0 \<le> r / ulp_of r" using ulp_of_pos[of r] by simp
  then have "rne 0 \<le> rne (r / ulp_of r)" by (rule rne_mono)
  then have "0 \<le> rne (r / ulp_of r)" using rne_of_int[of 0] by simp
  then show ?thesis using ulp_of_pos[of r] by (simp add: round_val_def)
qed

lemma round_val_exact:
  assumes "r / ulp_of r = of_int n"
  shows "round_val r = r"
proof -
  have "round_val r = of_int n * ulp_of r" using assms by (simp add: round_val_def rne_of_int)
  also have "\<dots> = (r / ulp_of r) * ulp_of r" using assms by simp
  also have "\<dots> = r" using ulp_of_pos[of r] by simp
  finally show ?thesis .
qed

lemma ilog2_less:
  assumes "0 < q" and "q < 2 powi k"
  shows "ilog2 q < k"
proof -
  from ilog2_bounds[OF assms(1)] have "2 powi (ilog2 q) \<le> q" by simp
  with assms(2) have "(2::rat) powi (ilog2 q) < 2 powi k" by simp
  then show ?thesis by (metis not_less one_le_numeral power_int_increasing)
qed

lemma ilog2_ge:
  assumes "2 powi k \<le> q"
  shows "k \<le> ilog2 q"
proof -
  have q: "0 < q" using assms by (meson less_le_trans zero_less_numeral zero_less_power_int)
  from ilog2_bounds[OF q] have "q < 2 powi (ilog2 q + 1)" by simp
  with assms have "(2::rat) powi k < 2 powi (ilog2 q + 1)" by simp
  then have "k < ilog2 q + 1" by (metis not_less one_le_numeral power_int_increasing)
  then show ?thesis by simp
qed

lemma ulp_of_abs_bound:
  assumes "r \<noteq> 0" and "\<bar>r\<bar> < 2 powi k" and "- 1021 \<le> k"
  shows "ulp_of r \<le> 2 powi (k - 53)"
proof -
  have "ilog2 \<bar>r\<bar> < k" using assms(1,2) by (intro ilog2_less) auto
  then have "max (ilog2 \<bar>r\<bar>) (- 1022) - 52 \<le> k - 53" using assms(3) by simp
  then show ?thesis unfolding ulp_of_def by (intro power_int_increasing) auto
qed

lemma round_val_abs_error:
  assumes "\<bar>r\<bar> < 2 powi k" and "- 1021 \<le> k"
  shows "\<bar>round_val r - r\<bar> \<le> 2 powi (k - 54)"
proof (cases "r = 0")
  case True
  then show ?thesis by (simp add: round_val_0)
next
  case False
  have "\<bar>round_val r - r\<bar> \<le> ulp_of r / 2" by (rule round_val_error)
  also have "\<dots> \<le> 2 powi (k - 53) / 2" using ulp_of_abs_bound[OF False assms] by simp
  also have "\<dots> = 2 powi (k - 54)"
    using power_int_diff[of "2::rat" "k - 53" 1] by simp
  finally show ?thesis .
qed

lemma ulp_of_rel_bound:
  assumes "2 powi (- 1022) \<le> \<bar>r\<bar>"
  shows "ulp_of r \<le> \<bar>r\<bar> / 2 ^ 52"
proof -
  have r: "0 < \<bar>r\<bar>" using assms by (meson less_le_trans zero_less_numeral zero_less_power_int)
  have "- 1022 \<le> ilog2 \<bar>r\<bar>" using assms by (rule ilog2_ge)
  then have "ulp_of r = 2 powi (ilog2 \<bar>r\<bar> - 52)" by (simp add: ulp_of_def max_def)
  also have "\<dots> = 2 powi (ilog2 \<bar>r\<bar>) / 2 ^ 52"
    using power_int_diff[of "2::rat" "ilog2 \<bar>r\<bar>" 52] by simp
  also have "\<dots> \<le> \<bar>r\<bar> / 2 ^ 52"
    using ilog2_bounds[OF r] by (simp add: divide_right_mono)
  finally show ?thesis .
qed

lemma round_val_rel_error:
  assumes "2 powi (- 1022) \<le> \<bar>r\<bar>"
  shows "\<bar>round_val r - r\<bar> \<le> \<bar>r\<bar> / 2 ^ 53"
proof -
  have "\<bar>round_val r - r\<bar> \<le> ulp_of r / 2" by (rule round_val_error)
  also have "\<dots> \<le> (\<bar>r\<bar> / 2 ^ 52) / 2" using ulp_of_rel_bound[OF assms] by simp
  also have "\<dots> = \<bar>r\<bar> / 2 ^ 53" by simp
  finally show ?thesis .
qed

lemma fl_finite:
  assumes "\<bar>round_val r\<bar> < 2 powi 1024"
  shows "finite_float (fl neg r) \<and> fval (fl neg r) = round_val r"
  using assms by (auto simp add: fl_def Let_def finite_float_def round_val_0)

lemma fl_Fin:
  assumes "\<bar>round_val r\<bar> < 2 powi 1024" and "round_val r \<noteq> 0"
  shows "fl neg r = Fin (round_val r)"
  using assms by (auto simp add: fl_def Let_def round_val_0)

lemma fadd_finite: "finite_float a \<Longrightarrow> finite_float b \<Longrightarrow> fadd a b = fl (a = NegZero \<and> b = NegZero) (fval a + fval b)"
  by (simp add: fadd_def finite_float_def)

lemma fneg_finite: "finite_float b \<Longrightarrow> finite_float (fneg b) \<and> fval (fneg b) = - fval b"
  by (cases b) (auto simp add: finite_float_def)

lemma fsub_finite: "finite_float a \<Longrightarrow> finite_float b \<Longrightarrow> \<exists>n. fsub a b = fl n (fval a - fval b)"
  using fneg_finite[of b] by (auto simp add: fsub_def fadd_finite)

lemma fmul_finite: "finite_float a \<Longrightarrow> finite_float b \<Longrightarrow> fmul a b = fl (is_neg a \<noteq> is_neg b) (fval a * fval b)"
  by (simp add: fmul_def finite_float_def)



lemma round_val_pow2: "round_val (2 ^ n) = 2 ^ n"
proof -
  have p: "(2::rat) ^ n = 2 powi (int n)" by simp
  have "ilog2 \<bar>(2::rat) ^ n\<bar> = int n"
    by (rule ilog2_unique) (simp_all add: power_int_add)
  then have u: "ulp_of (2 ^ n) = 2 powi (int n - 52)" by (simp add: ulp_of_def max_def)
  have "(2::rat) ^ n / ulp_of (2 ^ n) = 2 powi (int n) / 2 powi (int n - 52)" by (simp add: u)
  also have "\<dots> = 2 powi (int n - (int n - 52))" by (rule power_int_diff[symmetric]) simp
  also have "\<dots> = of_int (2 ^ 52)" by simp
  finally show ?thesis by (rule round_val_exact)
qed

lemma fl_pow2: "n \<le> 1023 \<Longrightarrow> fl neg (2 ^ n) = Fin (2 ^ n)"
proof -
  assume n: "n \<le> 1023"
  have "(2::rat) ^ n < 2 ^ 1024" using n by (intro power_strict_increasing) auto
  then show ?thesis
    by (intro fl_Fin[of "2 ^ n", unfolded round_val_pow2]) (simp_all)
qed

lemma float_of_int_pow2: "n \<le> 1023 \<Longrightarrow> float_of_int (2 ^ n) = Inr (Fin (2 ^ n))"
  using fl_pow2[of n False] by (simp add: float_of_int_def)

lemma world_size_bounds: "2 ^ 25 \<le> world_size" "world_size < 2 ^ 26" "0 < world_size"
  by (simp_all add: world_size_def)

lemma abs_le_add: "\<bar>a - b\<bar> \<le> c \<Longrightarrow> \<bar>a\<bar> \<le> \<bar>b\<bar> + (c::rat)"
  by linarith

lemma round_val_tw: 
  assumes "n \<le> 1023"
  shows "round_val (world_size / 2 ^ n) = world_size / 2 ^ n"
proof -
  let ?r = "world_size / 2 ^ n"
  have rpos: "0 < ?r" using world_size_bounds(3) by simp
  have d: "(2::rat) powi (25 - int n) = 2 ^ 25 / 2 ^ n" "(2::rat) powi (25 - int n + 1) = 2 ^ 26 / 2 ^ n"
    using power_int_diff[of "2::rat" 25 "int n"] power_int_diff[of "2::rat" 26 "int n"] by (simp_all add: algebra_simps)
  have a: "\<bar>?r\<bar> = ?r" using rpos by (simp only: abs_of_pos)
  have "ilog2 ?r = 25 - int n"
  proof (rule ilog2_unique)
    show "0 < ?r" by (rule rpos)
    show "2 powi (25 - int n) \<le> ?r" unfolding d by (intro divide_right_mono world_size_bounds) simp
    show "?r < 2 powi (25 - int n + 1)" unfolding d by (intro divide_strict_right_mono world_size_bounds) simp
  qed
  then have "max (ilog2 \<bar>?r\<bar>) (- 1022) - 52 = - 27 - int n" using assms unfolding a by simp
  then have u: "ulp_of ?r = 2 powi (- 27 - int n)" unfolding ulp_of_def by (rule arg_cong)
  have u2: "(2::rat) powi (- 27 - int n) = 1 / (2 ^ 27 * 2 ^ n)"
    using power_int_diff[of "2::rat" "- 27" "int n"] by (simp add: power_int_minus field_simps)
  have "?r / ulp_of ?r = of_int 5378777689100423" unfolding u u2 by (simp add: world_size_def)
  then show ?thesis by (rule round_val_exact)
qed

lemma fdiv_W_pow2:
  assumes "n \<le> 1023"
  shows "fdiv (Fin world_size) (Fin (2 ^ n)) = Inr (Fin (world_size / 2 ^ n))"
proof -
  have "world_size / 2 ^ n \<le> world_size / 1" by (intro divide_left_mono) (simp_all add: world_size_def)
  then have "\<bar>round_val (world_size / 2 ^ n)\<bar> < 2 powi 1024" "round_val (world_size / 2 ^ n) \<noteq> 0"
    unfolding round_val_tw[OF assms] by (simp_all add: world_size_def)
  from fl_Fin[OF this] have "fl neg (world_size / 2 ^ n) = Fin (world_size / 2 ^ n)" for neg
    by (simp only: round_val_tw[OF assms])
  then show ?thesis by (simp add: fdiv_def)
qed

lemma float_of_int_bounded:
  assumes "0 \<le> x" and "x \<le> 2 ^ 1023"
  shows "\<exists>fx. float_of_int x = Inr fx \<and> finite_float fx \<and> 0 \<le> fval fx \<and> \<bar>fval fx - of_int x\<bar> \<le> of_int x / 2 ^ 53"
proof (cases "x = 0")
  case True
  then show ?thesis by (simp add: float_of_int_def fl_def finite_float_def)
next
  case False
  let ?r = "of_int x :: rat"
  have x1: "1 \<le> ?r" using False assms(1) by simp
  have "(2::rat) powi (- 1022) \<le> 1" by (simp add: power_int_minus field_simps)
  with x1 have "2 powi (- 1022) \<le> \<bar>?r\<bar>" by simp
  from round_val_rel_error[OF this] have e: "\<bar>round_val ?r - ?r\<bar> \<le> ?r / 2 ^ 53" using x1 by simp
  have xle: "?r \<le> 2 ^ 1023" using assms(2) by (metis of_int_le_iff of_int_numeral of_int_power)
  have "\<bar>round_val ?r\<bar> \<le> \<bar>?r\<bar> + ?r / 2 ^ 53" using e by (rule abs_le_add)
  then have "\<bar>round_val ?r\<bar> \<le> ?r + ?r / 2 ^ 53" using x1 by simp
  also have "\<dots> \<le> 2 ^ 1023 + 2 ^ 1023 / 2 ^ 53" using xle by (intro add_mono divide_right_mono) simp_all
  also have "\<dots> < 2 powi 1024" by simp
  finally have b: "\<bar>round_val ?r\<bar> < 2 powi 1024" .
  from fl_finite[OF b, of False] have f: "finite_float (fl False ?r)" "fval (fl False ?r) = round_val ?r" by auto
  have "float_of_int x = Inr (fl False ?r)"
    using f(1) by (cases "fl False ?r") (simp_all add: float_of_int_def finite_float_def)
  moreover have "0 \<le> round_val ?r" using x1 by (intro round_val_nonneg) simp
  ultimately show ?thesis using f e by auto
qed

lemma rne_nearest:
  assumes "\<bar>of_int n - q\<bar> < 1 / 2"
  shows "rne q = n"
proof -
  have b: "of_int \<lfloor>q\<rfloor> \<le> q" "q < of_int \<lfloor>q\<rfloor> + 1" by linarith+
  consider "of_int n \<le> q" | "q < of_int n" by linarith
  then show ?thesis
  proof cases
    case 1
    then have "\<lfloor>q\<rfloor> = n" using assms by (intro floor_unique) linarith+
    then show ?thesis using assms 1 by (auto simp add: rne_def Let_def)
  next
    case 2
    then have "of_int (n - 1) \<le> q" "q < of_int (n - 1) + 1"
      using assms by (auto simp add: abs_less_iff)
    then have f: "\<lfloor>q\<rfloor> = n - 1" by (rule floor_unique)
    have "1 / 2 < q - of_int (n - 1)" using assms 2 by (auto simp add: abs_less_iff)
    then show ?thesis unfolding rne_def Let_def f by simp
  qed
qed

lemma ulp_of_eq:
  assumes "2 powi e \<le> \<bar>r\<bar>" and "\<bar>r\<bar> < 2 powi (e + 1)" and "- 1022 \<le> e"
  shows "ulp_of r = 2 powi (e - 52)"
proof -
  have "0 < \<bar>r\<bar>" using assms(1) by (meson less_le_trans zero_less_numeral zero_less_power_int)
  then have "ilog2 \<bar>r\<bar> = e" using assms(1,2) by (rule ilog2_unique)
  then have "max (ilog2 \<bar>r\<bar>) (- 1022) - 52 = e - 52" using assms(3) by simp
  then show ?thesis unfolding ulp_of_def by (rule arg_cong)
qed

lemma fl_nearest:
  assumes "2 powi e \<le> \<bar>r\<bar>" and "\<bar>r\<bar> < 2 powi (e + 1)" and "- 1022 \<le> e"
    and "\<bar>of_int n - r / 2 powi (e - 52)\<bar> < 1 / 2"
    and "v = of_int n * 2 powi (e - 52)" and "v \<noteq> 0" and "\<bar>v\<bar> < 2 powi 1024"
  shows "fl neg r = Fin v"
proof -
  have u: "ulp_of r = 2 powi (e - 52)" using assms(1-3) by (rule ulp_of_eq)
  have "rne (r / 2 powi (e - 52)) = n" using assms(4) by (rule rne_nearest)
  then have "round_val r = v" by (simp add: round_val_def u assms(5))
  then show ?thesis using fl_Fin[of r neg] assms(6,7) by simp
qed

lemma fl_exact:
  assumes "2 powi e \<le> \<bar>r\<bar>" and "\<bar>r\<bar> < 2 powi (e + 1)" and "- 1022 \<le> e" and "e \<le> 1023"
    and "r / 2 powi (e - 52) = of_int n"
  shows "fl neg r = Fin r"
proof -
  have u: "ulp_of r = 2 powi (e - 52)" using assms(1-3) by (rule ulp_of_eq)
  have rv: "round_val r = r" using assms(5) unfolding u[symmetric] by (rule round_val_exact)
  have "0 < \<bar>r\<bar>" using assms(1) by (meson less_le_trans zero_less_numeral zero_less_power_int)
  then have nz: "r \<noteq> 0" by simp
  have "(2::rat) powi (e + 1) \<le> 2 powi 1024" using assms(4) by (intro power_int_increasing) auto
  then have "\<bar>r\<bar> < 2 powi 1024" using assms(2) by simp
  then show ?thesis using fl_Fin[of r neg] nz by (simp add: rv)
qed

lemma fadd_Fin: "fadd (Fin a) (Fin b) = fl False (a + b)"
  by (simp add: fadd_def)

lemma fsub_Fin: "fsub (Fin a) (Fin b) = fl False (a - b)"
  by (simp add: fsub_def fadd_def)

lemma fmul_Fin: "fmul (Fin a) (Fin b) = fl ((a < 0) \<noteq> (b < 0)) (a * b)"
  by (simp add: fmul_def)

lemma fl_0: "fl False 0 = Fin 0" "fl True 0 = NegZero"
  by (simp_all add: fl_def)

lemma worldMercMax_val: "worldMercMax = Fin world_max"
  unfolding worldMercMax_def world_max_def
  by (rule fl_nearest[where e = 24 and n = 5378777689100423]) simp_all

lemma spec_worldMax_val: "spec_worldMax = Fin world_max"
  using worldMercMax_val by (simp add: worldMercMax_def spec_worldMax_def)

lemma spec_worldMin_val: "spec_worldMin = Fin (- world_max)"
  by (simp add: spec_worldMin_def spec_worldMax_val world_max_def)

lemma fl_int_examples:
  "fl neg 1 = Fin 1" "fl neg (- 1) = Fin (- 1)" "fl neg 4 = Fin 4" "fl neg (1 / 2) = Fin (1 / 2)"
     apply (rule fl_exact[where e = 0 and n = "2 ^ 52"]; simp)
    apply (rule fl_exact[where e = 0 and n = "- (2 ^ 52)"]; simp)
   apply (rule fl_exact[where e = 2 and n = "2 ^ 52"]; simp)
  apply (rule fl_exact[where e = "- 1" and n = "2 ^ 52"]; simp)
  done

lemma float_of_int_examples:
  "float_of_int 0 = Inr (Fin 0)" "float_of_int 1 = Inr (Fin 1)"
  "float_of_int (- 1) = Inr (Fin (- 1))" "float_of_int 4 = Inr (Fin 4)"
  using fl_int_examples[of False] by (simp_all add: float_of_int_def fl_0)

lemma to_float_examples: "to_float 0 = Fin 0" "to_float 1 = Fin 1"
  using fl_int_examples[of False] by (simp_all add: to_float_def fl_0)

lemma fl_world:
  "fl neg world_max = Fin world_max" "fl neg (- world_max) = Fin (- world_max)"
  "fl neg world_size = Fin world_size"
    apply (rule fl_exact[where e = 24 and n = 5378777689100423]; simp add: world_max_def)
   apply (rule fl_exact[where e = 24 and n = "- 5378777689100423"]; simp add: world_max_def)
  apply (rule fl_exact[where e = 25 and n = 5378777689100423]; simp add: world_size_def)
  done

lemma world_size_max: "world_size = 2 * world_max"
  by (simp add: world_size_def world_max_def)

lemma worldMercMin_val: "int_times_float (- 1) (Fin world_max) = Inr (Fin (- world_max))"
  using fl_world(2)[of True] by (simp add: int_times_float_def float_of_int_examples bindE_simps
      fmul_Fin) (simp add: world_max_def)

lemma worldMercSize_val: "fsub (Fin world_max) (Fin (- world_max)) = Fin world_size"
  using fl_world(3)[of False] by (simp add: fsub_Fin world_size_max)

text \<open>Rounding is odd in its argument and monotone.\<close>

lemma rne_spec:
  "\<bar>of_int (rne q) - q\<bar> < 1 / 2 \<or> (\<bar>of_int (rne q) - q\<bar> = 1 / 2 \<and> even (rne q))"
proof -
  have "of_int \<lfloor>q\<rfloor> \<le> q" "q < of_int \<lfloor>q\<rfloor> + 1" by linarith+
  then show ?thesis by (auto simp add: rne_def Let_def)
qed

lemma rne_tie:
  assumes "\<bar>of_int n - q\<bar> = 1 / 2" and "even n"
  shows "rne q = n"
proof -
  consider "q = of_int n + 1 / 2" | "q = of_int n - 1 / 2" using assms(1) by (auto simp add: abs_if split: if_splits) 
  then show ?thesis
  proof cases
    case 1
    then have "\<lfloor>q\<rfloor> = n" by (intro floor_unique) auto
    then show ?thesis using 1 assms(2) by (simp add: rne_def Let_def)
  next
    case 2
    then have "of_int (n - 1) \<le> q" "q < of_int (n - 1) + 1" by auto
    then have f: "\<lfloor>q\<rfloor> = n - 1" by (rule floor_unique)
    have "q - of_int (n - 1) = 1 / 2" using 2 by simp
    then show ?thesis unfolding rne_def Let_def f using assms(2) by simp
  qed
qed

lemma rne_neg: "rne (- q) = - rne q"
proof -
  have a: "\<bar>of_int (- rne q) - (- q)\<bar> = \<bar>of_int (rne q) - q\<bar>" by simp
  from rne_spec[of q] show ?thesis
  proof
    assume "\<bar>of_int (rne q) - q\<bar> < 1 / 2"
    then have "\<bar>of_int (- rne q) - (- q)\<bar> < 1 / 2" by (simp only: a)
    then show ?thesis by (rule rne_nearest)
  next
    assume t: "\<bar>of_int (rne q) - q\<bar> = 1 / 2 \<and> even (rne q)"
    then have "\<bar>of_int (- rne q) - (- q)\<bar> = 1 / 2" by (simp only: a)
    moreover have "even (- rne q)" using t by simp
    ultimately show ?thesis by (rule rne_tie)
  qed
qed

lemma ulp_of_neg: "ulp_of (- r) = ulp_of r"
  by (simp add: ulp_of_def)

lemma round_val_neg: "round_val (- r) = - round_val r"
  by (simp add: round_val_def ulp_of_neg rne_neg)

lemma round_val_nonpos: "r \<le> 0 \<Longrightarrow> round_val r \<le> 0"
  using round_val_nonneg[of "- r"] by (simp add: round_val_neg)

lemma ilog2_mono:
  assumes "0 < p" and "p \<le> q"
  shows "ilog2 p \<le> ilog2 q"
proof -
  have "2 powi (ilog2 p) \<le> p" using ilog2_bounds[OF assms(1)] by simp
  then have "2 powi (ilog2 p) \<le> q" using assms(2) by simp
  then show ?thesis by (rule ilog2_ge)
qed

lemma round_val_mono_pos:
  assumes "0 < r" and "r \<le> r'"
  shows "round_val r \<le> round_val r'"
proof -
  define e where "e = max (ilog2 \<bar>r\<bar>) (- 1022)"
  define e' where "e' = max (ilog2 \<bar>r'\<bar>) (- 1022)"
  have r': "0 < r'" using assms by simp
  have ar: "\<bar>r\<bar> = r" "\<bar>r'\<bar> = r'" using assms by simp_all
  have le: "e \<le> e'" using ilog2_mono[OF assms] by (simp add: ar e_def e'_def)
  have u: "ulp_of r = 2 powi (e - 52)" "ulp_of r' = 2 powi (e' - 52)"
    by (simp_all add: ulp_of_def e_def e'_def)
  have ge: "- 1022 \<le> e" "ilog2 r \<le> e" by (simp_all add: e_def ar)
  show ?thesis
  proof (cases "e = e'")
    case True
    then have uu: "ulp_of r' = ulp_of r" by (simp add: u)
    have "r / ulp_of r \<le> r' / ulp_of r"
      using assms(2) ulp_of_pos[of r] by (simp add: divide_right_mono)
    then have "rne (r / ulp_of r) \<le> rne (r' / ulp_of r)" by (rule rne_mono)
    then have "(of_int (rne (r / ulp_of r)) :: rat) \<le> of_int (rne (r' / ulp_of r))" by simp
    then show ?thesis
      unfolding round_val_def uu using ulp_of_pos[of r] by (simp add: mult_right_mono)
  next
    case False
    then have lt: "e + 1 \<le> e'" using le by simp
    with ge(1) have "- 1022 < e'" by linarith
    then have e': "e' = ilog2 r'" unfolding e'_def ar by (simp add: max_def split: if_splits)
    have up: "round_val r \<le> 2 powi (e + 1)"
    proof -
      have "r < 2 powi (ilog2 r + 1)" using ilog2_bounds[OF assms(1)] by simp
      also have "\<dots> \<le> 2 powi (e + 1)" using ge(2) by (intro power_int_increasing) simp_all
      finally have "r / ulp_of r \<le> 2 powi (e + 1) / ulp_of r"
        using ulp_of_pos[of r] by (simp add: divide_right_mono)
      also have "\<dots> = 2 powi ((e + 1) - (e - 52))"
        unfolding u by (rule power_int_diff[symmetric]) simp
      also have "\<dots> = of_int (2 ^ 53)" by simp
      finally have "rne (r / ulp_of r) \<le> rne (of_int (2 ^ 53))" by (rule rne_mono)
      then have "(of_int (rne (r / ulp_of r)) :: rat) \<le> of_int (2 ^ 53)"
        by (simp only: rne_of_int of_int_le_iff)
      then have "of_int (rne (r / ulp_of r)) * ulp_of r \<le> of_int (2 ^ 53) * ulp_of r"
        using ulp_of_pos[of r] by (intro mult_right_mono) simp_all
      then have "round_val r \<le> 2 powi 53 * 2 powi (e - 52)" by (simp add: round_val_def u)
      also have "\<dots> = 2 powi (53 + (e - 52))" by (rule power_int_add[symmetric]) simp
      also have "53 + (e - 52) = e + 1" by simp
      finally show ?thesis .
    qed
    have lo: "2 powi e' \<le> round_val r'"
    proof -
      have "2 powi e' \<le> r'" unfolding e' using ilog2_bounds[OF r'] by simp
      then have "2 powi e' / ulp_of r' \<le> r' / ulp_of r'"
        using ulp_of_pos[of r'] by (simp add: divide_right_mono)
      moreover have "2 powi e' / ulp_of r' = 2 powi (e' - (e' - 52))"
        unfolding u by (rule power_int_diff[symmetric]) simp
      moreover have "(2::rat) powi (e' - (e' - 52)) = of_int (2 ^ 52)" by simp
      ultimately have "of_int (2 ^ 52) \<le> r' / ulp_of r'" by simp
      then have "rne (of_int (2 ^ 52)) \<le> rne (r' / ulp_of r')" by (rule rne_mono)
      then have "(of_int (2 ^ 52) :: rat) \<le> of_int (rne (r' / ulp_of r'))"
        by (simp only: rne_of_int of_int_le_iff)
      then have "of_int (2 ^ 52) * ulp_of r' \<le> of_int (rne (r' / ulp_of r')) * ulp_of r'"
        using ulp_of_pos[of r'] by (intro mult_right_mono) simp_all
      then have "2 powi 52 * 2 powi (e' - 52) \<le> round_val r'" by (simp add: round_val_def u)
      moreover have "(2::rat) powi 52 * 2 powi (e' - 52) = 2 powi (52 + (e' - 52))"
        by (rule power_int_add[symmetric]) simp
      moreover have "52 + (e' - 52) = e'" by simp
      ultimately show ?thesis by simp
    qed
    have "(2::rat) powi (e + 1) \<le> 2 powi e'" using lt by (intro power_int_increasing) simp_all
    with up lo show ?thesis by linarith
  qed
qed

lemma round_val_mono:
  assumes "r \<le> r'"
  shows "round_val r \<le> round_val r'"
proof -
  consider "0 < r" | "r \<le> 0" "0 \<le> r'" | "r' < 0" by linarith
  then show ?thesis
  proof cases
    case 1
    then show ?thesis using assms by (rule round_val_mono_pos)
  next
    case 2
    then show ?thesis using round_val_nonpos[of r] round_val_nonneg[of r'] by linarith
  next
    case 3
    then have "0 < - r'" "- r' \<le> - r" using assms by simp_all
    then have "round_val (- r') \<le> round_val (- r)" by (rule round_val_mono_pos)
    then show ?thesis by (simp add: round_val_neg)
  qed
qed

subsection \<open>Validation\<close>

lemma tileIsValid_int:
  assumes "tile ''zoom'' = Some (TInt z)" and "tile ''x'' = Some (TInt x)"
    and "tile ''y'' = Some (TInt y)" and "tile ''format'' = Some (TStr ''mvt'')"
    and "0 \<le> z"
  shows "tileIsValid tile = Inr (0 \<le> x \<and> x < 2 ^ nat z \<and> 0 \<le> y \<and> y < 2 ^ nat z)"
  using assms
  by (auto simp add: tileIsValid_def domIff bindE_simps subscript_simps tile_pow2_def
      pow2_nonneg or_else_def tile_ge_def tile_lt_def ext_ge_def ext_lt_def)

text \<open>
  C2. For a tile whose format is \<^verbatim>\<open>'mvt'\<close> and whose zoom \<open>z\<close>, \<open>x\<close> and \<open>y\<close> are
  integers with \<open>0 \<le> z\<close>, \<^verbatim>\<open>tileIsValid\<close> returns \<^verbatim>\<open>True\<close> exactly when
  \<open>0 \<le> x < 2 ^ z\<close> and \<open>0 \<le> y < 2 ^ z\<close>, and \<^verbatim>\<open>False\<close> otherwise; it raises nothing.
\<close>

theorem tileIsValid_iff_in_grid:
  assumes "tile ''zoom'' = Some (TInt z)" and "tile ''x'' = Some (TInt x)"
    and "tile ''y'' = Some (TInt y)" and "tile ''format'' = Some (TStr ''mvt'')"
    and "0 \<le> z"
  shows "tileIsValid tile = Inr (0 \<le> x \<and> x < 2 ^ nat z \<and> 0 \<le> y \<and> y < 2 ^ nat z)"
  using assms by (rule tileIsValid_int)

theorem tileIsValid_iff_in_grid_witness:
  "tileIsValid [''zoom'' \<mapsto> TInt 9, ''x'' \<mapsto> TInt 255, ''y'' \<mapsto> TInt 170,
                ''format'' \<mapsto> TStr ''mvt''] = Inr True
   \<and> tileIsValid [''zoom'' \<mapsto> TInt 2, ''x'' \<mapsto> TInt 4, ''y'' \<mapsto> TInt 0,
                ''format'' \<mapsto> TStr ''mvt''] = Inr False
   \<and> tileIsValid [''zoom'' \<mapsto> TInt 2, ''x'' \<mapsto> TInt 1, ''y'' \<mapsto> TInt (- 1),
                ''format'' \<mapsto> TStr ''mvt''] = Inr False"
  using tileIsValid_iff_in_grid
          [of "[''zoom'' \<mapsto> TInt 9, ''x'' \<mapsto> TInt 255, ''y'' \<mapsto> TInt 170,
                ''format'' \<mapsto> TStr ''mvt'']" 9 255 170]
        tileIsValid_iff_in_grid
          [of "[''zoom'' \<mapsto> TInt 2, ''x'' \<mapsto> TInt 4, ''y'' \<mapsto> TInt 0,
                ''format'' \<mapsto> TStr ''mvt'']" 2 4 0]
        tileIsValid_iff_in_grid
          [of "[''zoom'' \<mapsto> TInt 2, ''x'' \<mapsto> TInt 1, ''y'' \<mapsto> TInt (- 1),
                ''format'' \<mapsto> TStr ''mvt'']" 2 1 "- 1"]
  by simp

text \<open>
  C10. \<^verbatim>\<open>tileIsValid\<close> does not test the sign of the zoom: for the tile with zoom
  \<open>-1\<close>, \<open>x = 0\<close>, \<open>y = 0\<close> and format \<^verbatim>\<open>'mvt'\<close> the grid size \<^verbatim>\<open>2 ** -1\<close> is the
  float \<^verbatim>\<open>0.5\<close>, neither coordinate reaches it, and the result is \<^verbatim>\<open>True\<close>.
\<close>

theorem tileIsValid_negative_zoom:
  "tileIsValid [''zoom'' \<mapsto> TInt (- 1), ''x'' \<mapsto> TInt 0, ''y'' \<mapsto> TInt 0,
                ''format'' \<mapsto> TStr ''mvt''] = Inr True"
  by (simp add: tileIsValid_def bindE_simps subscript_def tile_pow2_def pow2_def
      float_of_int_examples fl_int_examples or_else_def tile_ge_def tile_lt_def ext_ge_def ext_lt_def)


subsection \<open>Parsing\<close>

lemma split_on_nonempty: "split_on x cs \<noteq> []"
  by (induction cs) simp_all

lemma list_all_hd_tl: "G \<noteq> [] \<Longrightarrow> list_all P G = (P (hd G) \<and> list_all P (tl G))"
  by (cases G) simp_all

lemma is_digit_95: "\<not> is_digit 95" "is_digit c \<Longrightarrow> c \<noteq> 95"
  by (auto simp add: is_digit_def)

text \<open>The scanner on a run of digits and underscores followed by another character.\<close>

lemma scan_digits_run:
  assumes "list_all (\<lambda>c. is_digit c \<or> c = 95) run" and "r = [] \<or> \<not> (is_digit (hd r) \<or> hd r = 95)"
  shows "scan_digits prev (run @ r) =
     (if list_all (\<lambda>g. g \<noteq> []) (tl (split_on 95 run)) \<and>
         (prev = 95 \<longrightarrow> hd (split_on 95 run) \<noteq> [])
      then Some (filter is_digit run, r) else None)"
  using assms
proof (induction run arbitrary: prev)
  case Nil
  then show ?case by (cases r) auto
next
  case (Cons c run)
  show ?case
  proof (cases "c = 95")
    case True
    then show ?thesis
      using Cons by (simp add: is_digit_95 list_all_hd_tl[OF split_on_nonempty])
  next
    case False
    then have "is_digit c" using Cons.prems by simp
    then show ?thesis
      using False Cons by (simp add: is_digit_95)
  qed
qed


lemma split_on_all:
  "list_all (list_all D) (split_on x u) = list_all (\<lambda>c. c = x \<or> D c) u"
  by (induction u) (auto simp add: list_all_hd_tl[OF split_on_nonempty])

lemma list_all_conj: "list_all (\<lambda>g. P g \<and> Q g) G = (list_all P G \<and> list_all Q G)"
  by (induction G) auto

lemma split_on_hd: "(hd (split_on x u) \<noteq> []) = (u \<noteq> [] \<and> hd u \<noteq> x)"
  by (cases u) simp_all

lemma rstrip_append:
  assumes "\<forall>x\<in>set w. P x" and "u = [] \<or> \<not> P (last u)"
  shows "rev (dropWhile P (rev (u @ w))) = u"
proof -
  have "dropWhile P (rev (u @ w)) = dropWhile P (rev u)"
    using assms(1) by (simp add: dropWhile_append)
  also have "\<dots> = rev u"
    using assms(2) by (cases "rev u") (auto simp add: last_rev[symmetric])
  finally show ?thesis by simp
qed

lemma rstrip_decomp:
  "\<exists>w. xs = rev (dropWhile P (rev xs)) @ w \<and> (\<forall>x\<in>set w. P x)"
proof -
  have "rev xs = takeWhile P (rev xs) @ dropWhile P (rev xs)" by simp
  then have "rev (rev xs) = rev (takeWhile P (rev xs) @ dropWhile P (rev xs))" by simp
  then have "xs = rev (dropWhile P (rev xs)) @ rev (takeWhile P (rev xs))"
    by (simp only: rev_rev_ident rev_append)
  moreover have "\<forall>x\<in>set (rev (takeWhile P (rev xs))). P x"
    by (auto dest: set_takeWhileD)
  ultimately show ?thesis by blast
qed

lemma rstrip_Cons:
  "\<not> P x \<Longrightarrow> rev (dropWhile P (rev (x # xs))) = x # rev (dropWhile P (rev xs))"
  by (simp add: dropWhile_append)


lemma digit_not_space: "is_digit c \<or> c = 95 \<Longrightarrow> \<not> is_space c"
  by (auto simp add: is_digit_def is_space_def)

text \<open>
  What the scanner accepts of a text, after the sign: the text without its trailing
  whitespace is digits in groups separated by single underscores.
\<close>

lemma scan_literal:
  fixes c :: pystr
  defines "u \<equiv> rev (dropWhile is_space (rev c))"
  shows "(case scan_digits 0 c of
            None \<Rightarrow> None
          | Some (ds, r) \<Rightarrow>
              if (c \<noteq> [] \<and> hd c = 95) \<or> ds = [] \<or> \<not> list_all is_space r then None
              else Some ds) =
         (if list_all (\<lambda>g. g \<noteq> [] \<and> list_all is_digit g) (split_on 95 u)
          then Some (filter is_digit u) else None)"
proof -
  let ?D = "\<lambda>c. is_digit c \<or> c = 95"
  let ?run = "takeWhile ?D c" and ?r = "dropWhile ?D c"
  have c: "c = ?run @ ?r" by simp
  have b: "list_all ?D ?run" by (auto simp add: list_all_iff dest: set_takeWhileD)
  have r: "?r = [] \<or> \<not> (is_digit (hd ?r) \<or> hd ?r = 95)"
    using hd_dropWhile[of ?D c] by blast
  have sc: "scan_digits 0 c =
     (if list_all (\<lambda>g. g \<noteq> []) (tl (split_on 95 ?run))
      then Some (filter is_digit ?run, ?r) else None)"
    using scan_digits_run[OF b r, of 0] by simp
  show ?thesis
  proof (cases "list_all (\<lambda>g. g \<noteq> [] \<and> list_all is_digit g) (split_on 95 u)")
    case True
    then have ne: "list_all (\<lambda>g. g \<noteq> []) (split_on 95 u)"
      and dg: "list_all (\<lambda>c. c = 95 \<or> is_digit c) u"
      by (simp_all add: list_all_conj split_on_all)
    from ne have h: "u \<noteq> []" "hd u \<noteq> 95"
      using split_on_hd[of 95 u] by (simp_all add: list_all_hd_tl[OF split_on_nonempty])
    obtain w where w: "c = u @ w" "\<forall>x\<in>set w. is_space x"
      using rstrip_decomp[of c is_space] by (auto simp add: u_def)
    have w0: "takeWhile ?D w = []"
      using w(2) digit_not_space by (cases w) auto
    have ud: "\<And>x. x \<in> set u \<Longrightarrow> ?D x" using dg by (auto simp add: list_all_iff)
    have ru: "?run = u" using ud w0 by (simp add: w(1))
    have "?r = w" using c ru w(1) by (metis same_append_eq)
    moreover have "is_digit (hd u)" using h ud[of "hd u"] by auto
    then have "filter is_digit u \<noteq> []" using h(1) by (cases u) auto
    moreover have "hd c = hd u" "c \<noteq> []" using h(1) w(1) by simp_all
    moreover have "list_all (\<lambda>g. g \<noteq> []) (tl (split_on 95 u))"
      using ne by (simp add: list_all_hd_tl[OF split_on_nonempty])
    moreover have "list_all is_space w" using w(2) by (simp add: list_all_iff)
    ultimately show ?thesis
      using True sc ru h(2) by simp
  next
    case False
    have "scan_digits 0 c = Some (ds, r') \<Longrightarrow> (c \<noteq> [] \<and> hd c = 95) \<or> ds = [] \<or> \<not> list_all is_space r'"
      for ds r'
    proof (rule ccontr)
      assume s: "scan_digits 0 c = Some (ds, r')"
        and n: "\<not> ((c \<noteq> [] \<and> hd c = 95) \<or> ds = [] \<or> \<not> list_all is_space r')"
      from s sc have a: "list_all (\<lambda>g. g \<noteq> []) (tl (split_on 95 ?run))"
        and ds: "ds = filter is_digit ?run" and r': "r' = ?r"
        by (auto split: if_splits)
      from n ds have bne: "?run \<noteq> []" by auto
      then have cne: "c \<noteq> []" by auto
      then have "hd ?run = hd c" using bne by (cases c) (auto split: if_splits)
      then have "hd (split_on 95 ?run) \<noteq> []" using n bne cne by (simp add: split_on_hd)
      with a have ne: "list_all (\<lambda>g. g \<noteq> []) (split_on 95 ?run)"
        by (simp add: list_all_hd_tl[OF split_on_nonempty])
      have "list_all (list_all is_digit) (split_on 95 ?run)"
        using b by (simp add: split_on_all disj_commute)
      with ne have g: "list_all (\<lambda>g. g \<noteq> [] \<and> list_all is_digit g) (split_on 95 ?run)"
        by (simp add: list_all_conj)
      have "last ?run \<in> set ?run" using bne by simp
      then have "\<not> is_space (last ?run)"
        using b digit_not_space by (auto simp add: list_all_iff)
      moreover have "\<forall>x\<in>set ?r. is_space x" using n r' by (simp add: list_all_iff)
      ultimately have "rev (dropWhile is_space (rev (?run @ ?r))) = ?run"
        by (intro rstrip_append) auto
      then have "u = ?run" by (simp add: u_def)
      with g False show False by simp
    qed
    then show ?thesis using False by (auto split: option.splits)
  qed
qed

lemma rstrip_unsigned:
  assumes "b = [] \<or> \<not> is_space (hd b)"
  shows "rev (dropWhile is_space (rev (unsigned b))) = unsigned (rev (dropWhile is_space (rev b)))"
    and "(rev (dropWhile is_space (rev b)) \<noteq> [] \<and> hd (rev (dropWhile is_space (rev b))) = k) =
         (b \<noteq> [] \<and> hd b = k)"
proof -
  show "rev (dropWhile is_space (rev (unsigned b))) = unsigned (rev (dropWhile is_space (rev b)))"
  proof (cases b)
    case Nil
    then show ?thesis by (simp add: unsigned_def)
  next
    case (Cons x xs)
    then have "\<not> is_space x" using assms by simp
    from rstrip_Cons[of is_space x xs, OF this] show ?thesis
      by (simp add: unsigned_def Cons)
  qed
  show "(rev (dropWhile is_space (rev b)) \<noteq> [] \<and> hd (rev (dropWhile is_space (rev b))) = k) =
         (b \<noteq> [] \<and> hd b = k)"
  proof (cases b)
    case Nil
    then show ?thesis by simp
  next
    case (Cons x xs)
    then have "\<not> is_space x" using assms by simp
    from rstrip_Cons[of is_space x xs, OF this] show ?thesis
      by (simp add: Cons)
  qed
qed

text \<open>The scanner decides the grammar of the ASCII text and computes its value.\<close>

lemma int_of_ascii_literal:
  "int_of_ascii m a =
     (let t = rev (dropWhile is_space (rev (dropWhile is_space a)));
          ds = filter is_digit (unsigned t)
      in if list_all (\<lambda>g. g \<noteq> [] \<and> list_all is_digit g) (split_on 95 (unsigned t)) \<and>
            \<not> (640 < length ds \<and> 0 < m \<and> m < length ds)
         then Inr ((if t \<noteq> [] \<and> hd t = 45 then - 1 else 1) *
                   foldl (\<lambda>n d. 10 * n + digit_val d) 0 ds)
         else Inl ValueError)"
proof -
  define b where "b = dropWhile is_space a"
  define t where "t = rev (dropWhile is_space (rev b))"
  define c where "c = unsigned b"
  define sgn :: int where "sgn = (if b \<noteq> [] \<and> hd b = 45 then - 1 else 1)"
  have b: "b = [] \<or> \<not> is_space (hd b)"
    unfolding b_def using hd_dropWhile[of is_space a] by blast
  have u: "rev (dropWhile is_space (rev c)) = unsigned t"
    and sg: "(t \<noteq> [] \<and> hd t = 45) = (b \<noteq> [] \<and> hd b = 45)"
    unfolding c_def t_def using rstrip_unsigned[OF b] by blast+
  have x: "(case scan_digits 0 c of
            None \<Rightarrow> None
          | Some (ds, r) \<Rightarrow>
              if (c \<noteq> [] \<and> hd c = 95) \<or> ds = [] \<or> \<not> list_all is_space r then None
              else Some ds) =
         (if list_all (\<lambda>g. g \<noteq> [] \<and> list_all is_digit g) (split_on 95 (unsigned t))
          then Some (filter is_digit (unsigned t)) else None)"
    using scan_literal[of c] by (simp only: u)
  have d: "int_of_ascii m a =
     (if c \<noteq> [] \<and> hd c = 95 then Inl ValueError
         else
           (case scan_digits 0 c of
              None \<Rightarrow> Inl ValueError
            | Some (ds, r) \<Rightarrow>
                if 640 < length ds \<and> 0 < m \<and> m < length ds then Inl ValueError
                else if ds = [] then Inl ValueError
                else if \<not> list_all is_space r then Inl ValueError
                else Inr (sgn * foldl (\<lambda>n d. 10 * n + digit_val d) 0 ds)))"
    unfolding int_of_ascii_def Let_def unsigned_def c_def b_def sgn_def by (rule refl)
  have "int_of_ascii m a =
     (if list_all (\<lambda>g. g \<noteq> [] \<and> list_all is_digit g) (split_on 95 (unsigned t)) \<and>
            \<not> (640 < length (filter is_digit (unsigned t)) \<and> 0 < m \<and>
               m < length (filter is_digit (unsigned t)))
         then Inr (sgn * foldl (\<lambda>n d. 10 * n + digit_val d) 0 (filter is_digit (unsigned t)))
         else Inl ValueError)"
  proof (cases "list_all (\<lambda>g. g \<noteq> [] \<and> list_all is_digit g) (split_on 95 (unsigned t))")
    case True
    with x obtain r where "scan_digits 0 c = Some (filter is_digit (unsigned t), r)"
      and "\<not> (c \<noteq> [] \<and> hd c = 95)" and "filter is_digit (unsigned t) \<noteq> []"
      and "list_all is_space r"
      by (auto split: option.splits if_splits)
    then show ?thesis using True unfolding d by auto
  next
    case False
    with x have "(case scan_digits 0 c of
            None \<Rightarrow> None
          | Some (ds, r) \<Rightarrow>
              if (c \<noteq> [] \<and> hd c = 95) \<or> ds = [] \<or> \<not> list_all is_space r then None
              else Some ds) = None" by simp
    then have "int_of_ascii m a = Inl ValueError"
      unfolding d by (auto split: option.splits if_splits)
    then show ?thesis using False by simp
  qed
  moreover have "sgn = (if t \<noteq> [] \<and> hd t = 45 then - 1 else 1)"
    by (simp only: sgn_def sg)
  ultimately show ?thesis
    unfolding Let_def t_def b_def by (simp only:)
qed


lemma split_on_map:
  assumes "\<And>c. (g c = x) = (c = y)"
  shows "split_on x (map g u) = map (map g) (split_on y u)"
  using assms by (induction u) (simp_all add: split_on_nonempty hd_map map_tl)

lemma unsigned_map:
  assumes "\<And>c. (g c = 43) = (c = 43)" and "\<And>c. (g c = 45) = (c = 45)"
  shows "unsigned (map g t) = map g (unsigned t)"
  using assms by (cases t) (simp_all add: unsigned_def)

lemma unicode_decimal_Some:
  "unicode_decimal zs c = Some d \<Longrightarrow> d < 10 \<and> 128 \<le> c \<and> \<not> unicode_space c"
  by (auto simp add: unicode_decimal_def split: if_splits dest!: find_Some_iff[THEN iffD1])

lemma space_char_iff: "space_char c = (is_space c \<or> unicode_space c)"
  unfolding space_char_def is_space_def unicode_space_def by (simp; arith)

lemma unicode_space_ge: "unicode_space c \<Longrightarrow> 128 \<le> c"
  by (auto simp add: unicode_space_def)

text \<open>
  The characters of the text that the scanner reads stand for the classes of the
  characters of the string: a map \<open>g\<close> with these properties is the conversion to ASCII.
\<close>

lemma int_of_ascii_map:
  assumes sp: "\<And>c. is_space (g c) = space_char c"
    and dg: "\<And>c. is_digit (g c) = (digit_value I c \<noteq> None)"
    and dv: "\<And>c. digit_value I c \<noteq> None \<Longrightarrow> digit_val (g c) = int (the (digit_value I c))"
    and us: "\<And>c. (g c = 95) = (c = 95)"
    and pl: "\<And>c. (g c = 43) = (c = 43)"
    and mi: "\<And>c. (g c = 45) = (c = 45)"
  shows "int_of_ascii (int_max_str_digits I) (map g s) =
     (if integer_literal I s \<and> within_digit_limit I s then Inr (literal_value I s)
      else Inl ValueError)"
proof -
  have sp': "is_space \<circ> g = space_char" using sp by (simp add: fun_eq_iff)
  have dg': "is_digit \<circ> g = (\<lambda>c. digit_value I c \<noteq> None)" using dg by (simp add: fun_eq_iff)
  have t: "rev (dropWhile is_space (rev (dropWhile is_space (map g s)))) = map g (strip_ws s)"
    by (simp add: strip_ws_def dropWhile_map rev_map sp')
  define u where "u = unsigned (strip_ws s)"
  have u: "unsigned (map g (strip_ws s)) = map g u"
    unfolding u_def using pl mi by (rule unsigned_map)
  have g: "list_all (\<lambda>h. h \<noteq> [] \<and> list_all is_digit h) (split_on 95 (map g u)) =
           integer_literal I s"
    by (simp add: split_on_map[of g 95 95, OF us] list.pred_map comp_def dg integer_literal_def
        u_def)
  have f: "filter is_digit (map g u) = map g (filter (\<lambda>c. digit_value I c \<noteq> None) u)"
    by (simp add: filter_map dg')
  have n: "length (filter is_digit (map g u)) = length (literal_digits I s)"
    unfolding f by (simp add: literal_digits_def map_filter_def u_def)
  have v: "foldl (\<lambda>n d. 10 * n + digit_val d) 0 (filter is_digit (map g u)) =
           foldl (\<lambda>n d. 10 * n + int d) 0 (literal_digits I s)"
    unfolding f literal_digits_def map_filter_def u_def[symmetric] foldl_map
    by (rule foldl_cong) (simp_all add: dv)
  have h: "(map g (strip_ws s) \<noteq> [] \<and> hd (map g (strip_ws s)) = 45) =
           (strip_ws s \<noteq> [] \<and> hd (strip_ws s) = 45)"
    using mi by (cases "strip_ws s") simp_all
  show ?thesis
    unfolding int_of_ascii_literal Let_def t u g n v h
    by (simp add: within_digit_limit_def literal_value_def Let_def)
qed

lemma ascii_of_classes:
  "is_space (ascii_of I c) = space_char c"
  "is_digit (ascii_of I c) = (digit_value I c \<noteq> None)"
  "digit_value I c \<noteq> None \<Longrightarrow> digit_val (ascii_of I c) = int (the (digit_value I c))"
  "(ascii_of I c = 95) = (c = 95)" "(ascii_of I c = 43) = (c = 43)" "(ascii_of I c = 45) = (c = 45)"
  using unicode_decimal_Some[of "decimal_zeros I" c] unicode_space_ge[of c]
  by (auto simp add: ascii_of_def space_char_iff digit_value_def is_digit_def digit_val_def
      is_space_def unicode_decimal_def split: option.splits)


lemma ascii_classes:
  fixes I :: interp
  defines "g \<equiv> (\<lambda>c. if c < 128 then c else ascii_of I c)"
  shows "is_space (g c) = space_char c"
  "is_digit (g c) = (digit_value I c \<noteq> None)"
  "digit_value I c \<noteq> None \<Longrightarrow> digit_val (g c) = int (the (digit_value I c))"
  "(g c = 95) = (c = 95)" "(g c = 43) = (c = 43)" "(g c = 45) = (c = 45)"
proof -
  show "is_space (g c) = space_char c"
    using ascii_of_classes(1)[of I c] unicode_space_ge[of c]
    by (auto simp add: g_def space_char_iff)
  show "is_digit (g c) = (digit_value I c \<noteq> None)"
    using ascii_of_classes(2)[of I c]
    by (auto simp add: g_def digit_value_def is_digit_def unicode_decimal_def)
  show "digit_value I c \<noteq> None \<Longrightarrow> digit_val (g c) = int (the (digit_value I c))"
    using ascii_of_classes(3)[of I c]
    by (auto simp add: g_def digit_value_def digit_val_def unicode_decimal_def split: if_splits)
  show "(g c = 95) = (c = 95)" "(g c = 43) = (c = 43)" "(g c = 45) = (c = 45)"
    using ascii_of_classes(4-6)[of I c] by (auto simp add: g_def)
qed

text \<open>
  \<^verbatim>\<open>int\<close> accepts exactly the integer literals within the digit limit, and returns
  their value.
\<close>

lemma py_int_literal:
  "py_int I s =
     (if integer_literal I s \<and> within_digit_limit I s then Inr (literal_value I s)
      else Inl ValueError)"
proof (cases "list_all (\<lambda>c. c < 128) s")
  case True
  then have "map (\<lambda>c. if c < 128 then c else ascii_of I c) s = s"
    by (induction s) simp_all
  then have "py_int I s =
      int_of_ascii (int_max_str_digits I) (map (\<lambda>c. if c < 128 then c else ascii_of I c) s)"
    using True by (simp add: py_int_def to_ascii_def)
  also have "\<dots> = (if integer_literal I s \<and> within_digit_limit I s then Inr (literal_value I s)
      else Inl ValueError)"
    by (rule int_of_ascii_map[OF ascii_classes])
  finally show ?thesis .
next
  case False
  then have "py_int I s = int_of_ascii (int_max_str_digits I) (map (ascii_of I) s)"
    by (simp add: py_int_def to_ascii_def)
  also have "\<dots> = (if integer_literal I s \<and> within_digit_limit I s then Inr (literal_value I s)
      else Inl ValueError)"
    by (rule int_of_ascii_map[OF ascii_of_classes])
  finally show ?thesis .
qed

lemma str_examples:
  "str ''z'' = [122]" "str ''x'' = [120]" "str ''y'' = [121]"
  "str ''0'' = [48]" "str ''2'' = [50]" "str ''4'' = [52]" "str ''abc'' = [97, 98, 99]"
  "str '' 1_0 '' = [32, 49, 95, 48, 32]"
  by (simp_all add: str_def)

lemma py_int_examples:
  "py_int I [48] = Inr 0" "py_int I [50] = Inr 2" "py_int I [52] = Inr 4"
  "py_int I [97, 98, 99] = Inl ValueError" "py_int I [] = Inl ValueError"
  "py_int I [45, 49] = Inr (- 1)" "py_int I [49, 46, 53] = Inl ValueError"
  "py_int I [32, 49, 95, 48, 32] = Inr 10" "py_int I [49, 95, 95, 48] = Inl ValueError"
  "py_int I [28, 53] = Inl ValueError"
  by (simp_all add: py_int_def to_ascii_def int_of_ascii_def is_space_def is_digit_def
      digit_val_def)

lemma py_int_unicode_examples:
  "py_int python_3_11 [0xA0, 53] = Inr 5"
  "py_int python_3_11 [0x663] = Inr 3"
  "py_int python_3_11 [0x2003, 45, 0xFF11, 95, 0x660, 10] = Inr (- 10)"
  "py_int python_3_11 [0xB2] = Inl ValueError"
  by (simp_all add: py_int_def to_ascii_def int_of_ascii_def is_space_def is_digit_def
      digit_val_def python_3_11_def ascii_of_def unicode_space_def unicode_decimal_def
      unicode_14_decimal_zeros_def)

lemma literal_examples:
  "integer_literal python_3_11 [50]" "literal_value python_3_11 [50] = 2"
  "within_digit_limit python_3_11 [50]"
  "integer_literal python_3_11 [52]" "literal_value python_3_11 [52] = 4"
  "within_digit_limit python_3_11 [52]"
  "integer_literal python_3_11 [48]" "literal_value python_3_11 [48] = 0"
  "within_digit_limit python_3_11 [48]"
  "\<not> integer_literal python_3_11 [97, 98, 99]"
  "integer_literal python_3_11 [0xA0, 53]" "literal_value python_3_11 [0xA0, 53] = 5"
  "within_digit_limit python_3_11 [0xA0, 53]"
  "integer_literal python_3_11 [0x663]" "literal_value python_3_11 [0x663] = 3"
  "within_digit_limit python_3_11 [0x663]"
  "integer_literal python_3_11 [32, 49, 95, 48, 32]"
  "literal_value python_3_11 [32, 49, 95, 48, 32] = 10"
  "within_digit_limit python_3_11 [32, 49, 95, 48, 32]"
  by (simp_all add: integer_literal_def literal_value_def literal_digits_def strip_ws_def
      space_char_def unsigned_def digit_value_def unicode_decimal_def unicode_space_def
      within_digit_limit_def map_filter_def python_3_11_def unicode_14_decimal_zeros_def)

lemma param_int:
  "bindE (param p k) (\<lambda>s. bindE (py_int I s) f) =
     (if numeric_within_limit I p k then f (param_value I p k)
      else Inl (if p (str k) = None then KeyError k else ValueError))"
  by (simp add: param_def numeric_within_limit_def param_value_def py_int_literal bindE_simps
      split: option.splits)

lemma pathToTile_nonempty:
  assumes "p \<noteq> Map.empty"
  shows "pathToTile I (Some p) =
     (if \<not> numeric_within_limit I p ''z''
      then Inl (if p (str ''z'') = None then KeyError ''z'' else ValueError)
      else if \<not> numeric_within_limit I p ''x''
      then Inl (if p (str ''x'') = None then KeyError ''x'' else ValueError)
      else if \<not> numeric_within_limit I p ''y''
      then Inl (if p (str ''y'') = None then KeyError ''y'' else ValueError)
      else Inr (Some (tile_of (param_value I p ''z'') (param_value I p ''x'')
                        (param_value I p ''y''))))"
  using assms by (simp add: pathToTile_def param_int tile_of_def)

lemma absent_not_numeric: "absent_or_non_numeric I p k \<Longrightarrow> \<not> numeric_within_limit I p k"
  by (simp add: absent_or_non_numeric_def numeric_within_limit_def split: option.splits)

text \<open>
  C4. For a non-empty path-parameter mapping in which one of the keys \<^verbatim>\<open>z\<close>,
  \<^verbatim>\<open>x\<close>, \<^verbatim>\<open>y\<close> is absent or holds a string that is not numeric (not an integer
  literal: digits in groups separated by single underscores, after an optional sign,
  between optional whitespace), \<^verbatim>\<open>pathToTile\<close> raises \<^verbatim>\<open>KeyError\<close> or
  \<^verbatim>\<open>ValueError\<close>, the malformed-address condition. Exactly: the first of \<^verbatim>\<open>z\<close>,
  \<^verbatim>\<open>x\<close>, \<^verbatim>\<open>y\<close> that is absent, or is no literal, or is a literal of more digits
  than the interpreter's limit, decides the exception, \<^verbatim>\<open>KeyError\<close> of that key when
  it is absent and \<^verbatim>\<open>ValueError\<close> otherwise; and when there is none, the result is
  the tile of the integers that the three literals denote. For an absent (\<^verbatim>\<open>None\<close>) or
  empty mapping the result is \<^verbatim>\<open>None\<close>, which is a result and not a failure.
\<close>

theorem pathToTile_malformed_or_null:
  assumes "p \<noteq> Map.empty"
  shows "((\<exists>k\<in>set [''z'', ''x'', ''y'']. absent_or_non_numeric I p k) \<longrightarrow>
            (\<exists>e. pathToTile I (Some p) = Inl e \<and> is_malformed e)) \<and>
         pathToTile I (Some p) =
           (if \<not> numeric_within_limit I p ''z''
            then Inl (if p (str ''z'') = None then KeyError ''z'' else ValueError)
            else if \<not> numeric_within_limit I p ''x''
            then Inl (if p (str ''x'') = None then KeyError ''x'' else ValueError)
            else if \<not> numeric_within_limit I p ''y''
            then Inl (if p (str ''y'') = None then KeyError ''y'' else ValueError)
            else Inr (Some (tile_of (param_value I p ''z'') (param_value I p ''x'')
                              (param_value I p ''y'')))) \<and>
         pathToTile I None = Inr None \<and> pathToTile I (Some Map.empty) = Inr None"
proof -
  have "pathToTile I None = Inr None" "pathToTile I (Some Map.empty) = Inr None"
    by (simp_all add: pathToTile_def)
  moreover have "\<exists>e. pathToTile I (Some p) = Inl e \<and> is_malformed e"
    if "\<exists>k\<in>set [''z'', ''x'', ''y'']. absent_or_non_numeric I p k"
    using that absent_not_numeric[of I p] by (auto simp add: pathToTile_nonempty[OF assms])
  ultimately show ?thesis using pathToTile_nonempty[OF assms, of I] by blast
qed

theorem pathToTile_malformed_or_null_witness:
  "(\<exists>k\<in>set [''z'', ''x'', ''y''].
      absent_or_non_numeric python_3_11 [str ''z'' \<mapsto> str ''2'', str ''x'' \<mapsto> str ''4''] k) \<and>
   (\<exists>e. pathToTile python_3_11 (Some [str ''z'' \<mapsto> str ''2'', str ''x'' \<mapsto> str ''4'']) = Inl e \<and>
      is_malformed e) \<and>
   pathToTile python_3_11 (Some [str ''z'' \<mapsto> str ''2'', str ''x'' \<mapsto> str ''4'']) =
     Inl (KeyError ''y'') \<and>
   (\<exists>k\<in>set [''z'', ''x'', ''y''].
      absent_or_non_numeric python_3_11
        [str ''z'' \<mapsto> str ''2'', str ''x'' \<mapsto> str ''abc'', str ''y'' \<mapsto> str ''0''] k) \<and>
   (\<exists>e. pathToTile python_3_11
          (Some [str ''z'' \<mapsto> str ''2'', str ''x'' \<mapsto> str ''abc'', str ''y'' \<mapsto> str ''0'']) = Inl e \<and>
      is_malformed e) \<and>
   pathToTile python_3_11
     (Some [str ''z'' \<mapsto> str ''2'', str ''x'' \<mapsto> str ''abc'', str ''y'' \<mapsto> str ''0'']) =
     Inl ValueError \<and>
   pathToTile python_3_11
     (Some [str ''z'' \<mapsto> [0xA0, 53], str ''x'' \<mapsto> [0x663], str ''y'' \<mapsto> str '' 1_0 '']) =
     Inr (Some (tile_of 5 3 10)) \<and>
   pathToTile python_3_11 None = Inr None \<and> pathToTile python_3_11 (Some Map.empty) = Inr None"
  using pathToTile_malformed_or_null[of "[str ''z'' \<mapsto> str ''2'', str ''x'' \<mapsto> str ''4'']"
          python_3_11]
        pathToTile_malformed_or_null[of
          "[str ''z'' \<mapsto> str ''2'', str ''x'' \<mapsto> str ''abc'', str ''y'' \<mapsto> str ''0'']" python_3_11]
        pathToTile_malformed_or_null[of
          "[str ''z'' \<mapsto> [0xA0, 53], str ''x'' \<mapsto> [0x663], str ''y'' \<mapsto> str '' 1_0 '']"
          python_3_11]
  by (simp add: absent_or_non_numeric_def numeric_within_limit_def param_value_def
      str_examples literal_examples)

subsection \<open>The handler on an invalid tile\<close>

lemma pathToTile_2_4_0:
  "pathToTile I (Some [str ''z'' \<mapsto> str ''2'', str ''x'' \<mapsto> str ''4'', str ''y'' \<mapsto> str ''0'']) =
     Inr (Some (tile_of 2 4 0))"
  by (simp add: pathToTile_def param_def bindE_simps str_examples py_int_examples tile_of_def)

lemma tileIsValid_2_4_0: "tileIsValid (tile_of 2 4 0) = Inr False"
  using tileIsValid_int[of "tile_of 2 4 0" 2 4 0] by (simp add: tile_of_def)

text \<open>
  C3. When the parser returns \<^verbatim>\<open>None\<close> or \<^verbatim>\<open>tileIsValid\<close> returns \<^verbatim>\<open>False\<close>, the
  handler takes the branch that is written to return the status 400, and there the
  evaluation of \<^verbatim>\<open>self.path\<close> raises \<^verbatim>\<open>NameError\<close>: no response is returned. The
  store is as it was, so neither the envelope nor the query has been built.
\<close>

theorem lambda_handler_invalid_raises:
  assumes "event ''pathParameters'' = Some params"
    and "pathToTile I params = Inr None \<or>
         (\<exists>t. pathToTile I params = Inr (Some t) \<and> tileIsValid t = Inr False)"
  shows "lambda_handler I rds b64 repr TABLE DATABASE event h = (Inl (NameError ''self''), h)"
  using assms
  by (auto simp add: lambda_handler_def subscript_simps monad_simps invalid_tile_response_def)

theorem lambda_handler_invalid_raises_witness:
  "lambda_handler python_3_11 (\<lambda>db sql. Inl (ExecutionFailure [])) (\<lambda>b::string. b) (\<lambda>f. [])
      0 \<lparr>cluster_arn = [], secret_arn = [], database_name = []\<rparr>
      [''pathParameters'' \<mapsto> Some [str ''z'' \<mapsto> str ''2'', str ''x'' \<mapsto> str ''4'', str ''y'' \<mapsto> str ''0'']]
      [[''table'' \<mapsto> OStr ''t'']]
   = (Inl (NameError ''self''), [[''table'' \<mapsto> OStr ''t'']])"
  by (rule lambda_handler_invalid_raises
        [where params = "Some [str ''z'' \<mapsto> str ''2'', str ''x'' \<mapsto> str ''4'', str ''y'' \<mapsto> str ''0'']"])
     (simp_all add: pathToTile_2_4_0 tileIsValid_2_4_0)


subsection \<open>The envelope\<close>

lemma tileToEnvelope_int:
  assumes "t ''zoom'' = Some (TInt z)" and "t ''x'' = Some (TInt x)" and "t ''y'' = Some (TInt y)"
    and "bindE (pow2 z) num_to_float = Inr p" and "fdiv (Fin world_size) p = Inr tw"
    and "float_of_int x = Inr fx" and "float_of_int (x + 1) = Inr fx1"
    and "float_of_int y = Inr fy" and "float_of_int (y + 1) = Inr fy1"
  shows "tileToEnvelope t h = (Inr (length h),
     h @ [[''xmin'' \<mapsto> OFloat (fadd (Fin (- world_max)) (fmul tw fx)),
           ''xmax'' \<mapsto> OFloat (fadd (Fin (- world_max)) (fmul tw fx1)),
           ''ymin'' \<mapsto> OFloat (fsub (Fin world_max) (fmul tw fy1)),
           ''ymax'' \<mapsto> OFloat (fsub (Fin world_max) (fmul tw fy))]])"
  using assms
  unfolding tileToEnvelope_def
  by (auto simp add: monad_simps worldMercMin_val worldMercSize_val subscript_simps bindE_simps
      tile_pow2_def float_div_num_def float_times_tile_def tile_plus_one_def bnd_def new_dict_def
      setitem_def lift_def ret_def worldMercMax_val bindE_def split: sum.splits)


lemma to_float_ok:
  assumes "0 \<le> x" and "x \<le> 2 ^ 1023"
  shows "float_of_int x = Inr (to_float x)"
  using float_of_int_bounded[OF assms]
  by (auto simp add: float_of_int_def to_float_def finite_float_def split: pyfloat.splits)

lemma pow2_le: "0 \<le> z \<Longrightarrow> z \<le> 1023 \<Longrightarrow> (2::int) ^ nat z \<le> 2 ^ 1023"
  by (intro power_increasing) auto

lemma tileToEnvelope_vals:
  assumes t: "t ''zoom'' = Some (TInt z)" "t ''x'' = Some (TInt x)" "t ''y'' = Some (TInt y)"
    and z: "0 \<le> z" "z \<le> 1023" and x: "0 \<le> x" "x < 2 ^ nat z" and y: "0 \<le> y" "y < 2 ^ nat z"
  shows "tileToEnvelope t h = (Inr (length h),
     h @ [[''xmin'' \<mapsto> OFloat (fadd (Fin (- world_max)) (fmul (Fin (world_size / 2 ^ nat z)) (to_float x))),
           ''xmax'' \<mapsto> OFloat (fadd (Fin (- world_max)) (fmul (Fin (world_size / 2 ^ nat z)) (to_float (x + 1)))),
           ''ymin'' \<mapsto> OFloat (fsub (Fin world_max) (fmul (Fin (world_size / 2 ^ nat z)) (to_float (y + 1)))),
           ''ymax'' \<mapsto> OFloat (fsub (Fin world_max) (fmul (Fin (world_size / 2 ^ nat z)) (to_float y)))]])"
proof -
  have n: "nat z \<le> 1023" using z by simp
  have b: "(2::int) ^ nat z \<le> 2 ^ 1023" using z by (rule pow2_le)
  have p: "bindE (pow2 z) num_to_float = Inr (Fin (2 ^ nat z))"
    using z float_of_int_pow2[OF n] by (simp add: pow2_nonneg bindE_simps)
  have tw: "fdiv (Fin world_size) (Fin (2 ^ nat z)) = Inr (Fin (world_size / 2 ^ nat z))"
    by (rule fdiv_W_pow2[OF n])
  have fx: "float_of_int x = Inr (to_float x)" using x b by (intro to_float_ok) auto
  have fx1: "float_of_int (x + 1) = Inr (to_float (x + 1))" using x b by (intro to_float_ok) auto
  have fy: "float_of_int y = Inr (to_float y)" using y b by (intro to_float_ok) auto
  have fy1: "float_of_int (y + 1) = Inr (to_float (y + 1))" using y b by (intro to_float_ok) auto
  show ?thesis
    by (rule tileToEnvelope_int[OF t p tw fx fx1 fy fy1])
qed

lemma spec_envelope_vals:
  assumes z: "0 \<le> z" "z \<le> 1023"
  shows "spec_envelope z x y =
     [''xmin'' \<mapsto> OFloat (fadd (Fin (- world_max)) (fmul (Fin (world_size / 2 ^ nat z)) (to_float x))),
      ''xmax'' \<mapsto> OFloat (fadd (Fin (- world_max)) (fmul (Fin (world_size / 2 ^ nat z)) (to_float (x + 1)))),
      ''ymin'' \<mapsto> OFloat (fsub (Fin world_max) (fmul (Fin (world_size / 2 ^ nat z)) (to_float (y + 1)))),
      ''ymax'' \<mapsto> OFloat (fsub (Fin world_max) (fmul (Fin (world_size / 2 ^ nat z)) (to_float y)))]"
proof -
  have n: "nat z \<le> 1023" using z by simp
  have tf: "to_float (2 ^ nat z) = Fin (2 ^ nat z)"
    using fl_pow2[OF n, of False] by (simp add: to_float_def)
  have q: "fquot (Fin world_size) (Fin (2 ^ nat z)) = Fin (world_size / 2 ^ nat z)"
    using fdiv_W_pow2[OF n] by (simp add: fquot_def)
  show ?thesis
    unfolding spec_envelope_def Let_def spec_worldMax_val spec_worldMin_val worldMercSize_val tf q
    by (rule refl)
qed

lemma tileToEnvelope_spec:
  assumes t: "t ''zoom'' = Some (TInt z)" "t ''x'' = Some (TInt x)" "t ''y'' = Some (TInt y)"
    and z: "0 \<le> z" "z \<le> 1023" and x: "0 \<le> x" "x < 2 ^ nat z" and y: "0 \<le> y" "y < 2 ^ nat z"
  shows "tileToEnvelope t h = (Inr (length h), h @ [spec_envelope z x y])"
  unfolding spec_envelope_vals[OF z] by (rule tileToEnvelope_vals[OF assms])

lemma fl_world_sum:
  "fl neg (world_size - world_max) = Fin world_max"
  "fl neg (world_max - world_size) = Fin (- world_max)"
  "fl neg (- world_max + world_size) = Fin world_max"
  using fl_world(1,2)[of neg] by (simp_all add: world_size_max)

lemma spec_envelope_world:
  "spec_envelope 0 0 0 =
     [''xmin'' \<mapsto> OFloat spec_worldMin, ''xmax'' \<mapsto> OFloat spec_worldMax,
      ''ymin'' \<mapsto> OFloat spec_worldMin, ''ymax'' \<mapsto> OFloat spec_worldMax]"
proof -
  have n: "\<not> world_size < 0" using world_size_bounds(3) by simp
  have 1: "fadd (Fin (- world_max)) (fmul (Fin world_size) (Fin 0)) = Fin (- world_max)"
    using fl_world(2)[of False] by (simp add: fmul_Fin n fl_0 fadd_Fin)
  have 2: "fadd (Fin (- world_max)) (fmul (Fin world_size) (Fin 1)) = Fin world_max"
    using fl_world(3)[of False] fl_world_sum(3)[of False] by (simp add: fmul_Fin n fadd_Fin)
  have 3: "fsub (Fin world_max) (fmul (Fin world_size) (Fin 1)) = Fin (- world_max)"
    using fl_world(3)[of False] fl_world_sum(2)[of False] by (simp add: fmul_Fin n fsub_Fin)
  have 4: "fsub (Fin world_max) (fmul (Fin world_size) (Fin 0)) = Fin world_max"
    using fl_world(1)[of False] by (simp add: fmul_Fin n fl_0 fsub_Fin)
  show ?thesis
    by (simp add: spec_envelope_vals to_float_examples spec_worldMax_val spec_worldMin_val 1 2 3 4)
qed

lemma fl_2_1024: "fl False (2 ^ 1024) = PInf"
proof -
  have "round_val (2 ^ 1024) = 2 ^ 1024" by (rule round_val_pow2)
  then show ?thesis by (simp add: fl_def)
qed

lemma float_of_int_2_1024: "float_of_int (2 ^ 1024) = Inl OverflowError"
  by (simp only: float_of_int_def of_int_power of_int_numeral fl_2_1024 pyfloat.case)

lemma tileToEnvelope_1024: "tileToEnvelope (tile_of 1024 0 0) h = (Inl OverflowError, h)"
proof -
  have n: "nat 1024 = 1024" by simp
  have p: "bindE (subscript (tile_of 1024 0 0) ''zoom'') tile_pow2 = Inr (NInt (2 ^ 1024))"
    unfolding n[symmetric] by (simp add: tile_of_def subscript_def bindE_simps tile_pow2_def pow2_def del: power_numeral)
  have d: "float_div_num (Fin world_size) (NInt (2 ^ 1024)) = Inl OverflowError"
    by (simp only: float_div_num_def num_to_float.simps float_of_int_2_1024 bindE_simps)
  show ?thesis
    by (simp only: tileToEnvelope_def worldMercMax_val worldMercMin_val worldMercSize_val
        monad_simps p d)
qed


text \<open>
  C1 (as amended). For a tile with integer zoom \<open>0 \<le> z \<le> 1023\<close> and
  \<open>0 \<le> x < 2 ^ z\<close>, \<open>0 \<le> y < 2 ^ z\<close>, \<^verbatim>\<open>tileToEnvelope\<close> returns a new \<^verbatim>\<open>dict\<close>
  holding the envelope of the spec's formula, computed in doubles; and for the tile
  \<open>(0, 0, 0)\<close> that envelope is the full world extent on both axes.
\<close>

theorem tileToEnvelope_formula:
  assumes "t ''zoom'' = Some (TInt z)" and "t ''x'' = Some (TInt x)" and "t ''y'' = Some (TInt y)"
    and "0 \<le> z" and "z \<le> 1023" and "0 \<le> x" and "x < 2 ^ nat z" and "0 \<le> y" and "y < 2 ^ nat z"
  shows "tileToEnvelope t h = (Inr (length h), h @ [spec_envelope z x y]) \<and>
         spec_envelope 0 0 0 =
           [''xmin'' \<mapsto> OFloat spec_worldMin, ''xmax'' \<mapsto> OFloat spec_worldMax,
            ''ymin'' \<mapsto> OFloat spec_worldMin, ''ymax'' \<mapsto> OFloat spec_worldMax]"
  using tileToEnvelope_spec[OF assms] spec_envelope_world by simp

theorem tileToEnvelope_formula_witness:
  "tileToEnvelope (tile_of 0 0 0) [] =
     (Inr 0, [[''xmin'' \<mapsto> OFloat spec_worldMin, ''xmax'' \<mapsto> OFloat spec_worldMax,
               ''ymin'' \<mapsto> OFloat spec_worldMin, ''ymax'' \<mapsto> OFloat spec_worldMax]])"
  using tileToEnvelope_formula[of "tile_of 0 0 0" 0 0 0 "[]"] by (simp add: tile_of_def)

text \<open>
  The claim as stated, for every zoom \<open>0 \<le> z\<close>, fails at zoom 1024: the tile
  \<open>(1024, 0, 0)\<close> is valid, and the division by \<^verbatim>\<open>2 ** 1024\<close>, an \<^verbatim>\<open>int\<close> that no
  double holds, raises \<^verbatim>\<open>OverflowError\<close>.
\<close>

theorem tileToEnvelope_formula_counterexample:
  "tileIsValid (tile_of 1024 0 0) = Inr True \<and>
   tileToEnvelope (tile_of 1024 0 0) [] = (Inl OverflowError, [])"
  using tileIsValid_int[of "tile_of 1024 0 0" 1024 0 0] tileToEnvelope_1024[of "[]"]
  by (simp add: tile_of_def)


subsection \<open>Adjacent tiles\<close>

lemma tile_of_simps:
  "tile_of z x y ''zoom'' = Some (TInt z)" "tile_of z x y ''x'' = Some (TInt x)"
  "tile_of z x y ''y'' = Some (TInt y)" "tile_of z x y ''format'' = Some (TStr ''mvt'')"
  by (simp_all add: tile_of_def)









subsection \<open>Side lengths\<close>

lemma world_numeric:
  "world_size + world_size / 2 ^ 53 < 2 ^ 26"
  "world_max + (3 / 2 ^ 28) < 2 ^ 25"
  "world_size / 2 ^ 53 \<le> 1 / 2 ^ 27"
  "0 < world_max"
  "world_size - world_max = world_max"
  by (simp_all add: world_size_def world_max_def)

lemma abs_tri:
  fixes a b c :: rat
  shows "\<bar>a - b\<bar> \<le> e1 \<Longrightarrow> \<bar>b - c\<bar> \<le> e2 \<Longrightarrow> e1 + e2 \<le> e \<Longrightarrow> \<bar>a - c\<bar> \<le> e"
  by linarith

lemma abs_upper:
  fixes a b :: rat
  shows "\<bar>a - b\<bar> \<le> e \<Longrightarrow> b \<le> w \<Longrightarrow> a \<le> w + e"
  by linarith

lemma abs_between:
  fixes v :: rat
  shows "l \<le> v \<Longrightarrow> v \<le> u \<Longrightarrow> - b < l \<Longrightarrow> u < b \<Longrightarrow> \<bar>v\<bar> < b"
  by linarith

lemma abs_shift:
  fixes a b m :: rat
  shows "\<bar>a - b\<bar> \<le> e \<Longrightarrow> \<bar>(m - a) - (m - b)\<bar> \<le> e"
    and "\<bar>a - b\<bar> \<le> e \<Longrightarrow> \<bar>(m + a) - (m + b)\<bar> \<le> e"
  by linarith+

lemma abs_grow:
  fixes v r :: rat
  shows "\<bar>v - r\<bar> \<le> e \<Longrightarrow> \<bar>r\<bar> < b \<Longrightarrow> \<bar>v\<bar> < b + e"
  by linarith

lemma to_float_error:
  assumes "0 \<le> n" and "n \<le> 2 ^ 1023"
  shows "finite_float (to_float n) \<and> 0 \<le> fval (to_float n) \<and>
         \<bar>fval (to_float n) - of_int n\<bar> \<le> of_int n / 2 ^ 53"
  using float_of_int_bounded[OF assms] to_float_ok[OF assms] by auto

lemma tile_width_times:
  assumes "0 \<le> n" and "n \<le> 2 ^ k"
  shows "0 \<le> world_size / 2 ^ k * of_int n \<and> world_size / 2 ^ k * of_int n \<le> world_size"
proof -
  let ?s = "world_size / 2 ^ k"
  let ?n = "of_int n :: rat"
  have s0: "0 \<le> ?s" using world_size_bounds(3) by simp
  have n0: "0 \<le> ?n" using assms(1) by simp
  have "?n \<le> of_int (2 ^ k)" using assms(2) by (simp only: of_int_le_iff)
  then have nk: "?n \<le> 2 ^ k" by simp
  have "?s * ?n \<le> ?s * 2 ^ k" using nk s0 by (rule mult_left_mono)
  then have "?s * ?n \<le> world_size" by simp
  moreover have "0 \<le> ?s * ?n" using s0 n0 by (rule mult_nonneg_nonneg)
  ultimately show ?thesis by simp
qed

lemma tile_product_error:
  assumes n: "0 \<le> n" "n \<le> 2 ^ k" and k: "k \<le> 1023"
  shows "finite_float (fmul (Fin (world_size / 2 ^ k)) (to_float n)) \<and>
         0 \<le> fval (fmul (Fin (world_size / 2 ^ k)) (to_float n)) \<and>
         \<bar>fval (fmul (Fin (world_size / 2 ^ k)) (to_float n)) - world_size / 2 ^ k * of_int n\<bar>
           \<le> 3 / 2 ^ 28"
proof -
  let ?s = "world_size / 2 ^ k"
  let ?n = "of_int n :: rat"
  let ?X = "fval (to_float n)"
  have "(2::int) ^ k \<le> 2 ^ 1023" using k by (intro power_increasing) auto
  then have n1023: "n \<le> 2 ^ 1023" using n(2) by simp
  from to_float_error[OF n(1) n1023]
  have X: "finite_float (to_float n)" "0 \<le> ?X" "\<bar>?X - ?n\<bar> \<le> ?n / 2 ^ 53" by auto
  have s0: "0 \<le> ?s" using world_size_bounds(3) by simp
  from tile_width_times[OF n] have sn0: "0 \<le> ?s * ?n" and sn: "?s * ?n \<le> world_size" by auto
  have d: "\<bar>?s * ?X - ?s * ?n\<bar> \<le> world_size / 2 ^ 53"
  proof -
    have "?s * ?X - ?s * ?n = ?s * (?X - ?n)" by (simp only: right_diff_distrib)
    then have "\<bar>?s * ?X - ?s * ?n\<bar> = \<bar>?s\<bar> * \<bar>?X - ?n\<bar>" by (simp only: abs_mult)
    also have "\<dots> = ?s * \<bar>?X - ?n\<bar>" using s0 by (simp only: abs_of_nonneg)
    also have "\<dots> \<le> ?s * (?n / 2 ^ 53)" using X(3) s0 by (rule mult_left_mono)
    also have "\<dots> = (?s * ?n) / 2 ^ 53" by simp
    also have "\<dots> \<le> world_size / 2 ^ 53" using sn by (rule divide_right_mono) simp
    finally show ?thesis .
  qed
  have sX0: "0 \<le> ?s * ?X" using s0 X(2) by (rule mult_nonneg_nonneg)
  have "?s * ?X \<le> world_size + world_size / 2 ^ 53" using d sn by (rule abs_upper)
  also have "\<dots> < 2 ^ 26" by (rule world_numeric(1))
  finally have "\<bar>?s * ?X\<bar> < 2 ^ 26" using sX0 by (simp only: abs_of_nonneg)
  then have "\<bar>?s * ?X\<bar> < 2 powi 26" by simp
  from round_val_abs_error[OF this]
  have r: "\<bar>round_val (?s * ?X) - ?s * ?X\<bar> \<le> 1 / 2 ^ 28"
    by (simp add: power_int_minus field_simps)
  let ?A = "round_val (?s * ?X)"
  have A0: "0 \<le> ?A" using sX0 by (rule round_val_nonneg)
  have d': "\<bar>?s * ?X - ?s * ?n\<bar> \<le> 1 / 2 ^ 27" using d world_numeric(3) by (rule order_trans)
  have tot: "\<bar>?A - ?s * ?n\<bar> \<le> 3 / 2 ^ 28"
    using r d' by (rule abs_tri) simp
  have "?A \<le> world_size + 3 / 2 ^ 28" using tot sn by (rule abs_upper)
  also have "\<dots> < 2 ^ 26 + 1" using world_size_bounds(2) by simp
  also have "\<dots> < 2 powi 1024" by simp
  finally have "\<bar>?A\<bar> < 2 powi 1024" using A0 by (simp only: abs_of_nonneg)
  from fl_finite[OF this]
  have f: "finite_float (fl neg (?s * ?X)) \<and> fval (fl neg (?s * ?X)) = ?A" for neg by simp
  have m: "fmul (Fin ?s) (to_float n) = fl (is_neg (Fin ?s) \<noteq> is_neg (to_float n)) (?s * ?X)"
    using fmul_finite[of "Fin ?s" "to_float n"] X(1) by (simp add: finite_float_def)
  show ?thesis unfolding m using f A0 tot by simp
qed

lemma xcorner_error:
  assumes n: "0 \<le> n" "n \<le> 2 ^ k" and k: "k \<le> 1023"
  shows "finite_float (fadd (Fin (- world_max)) (fmul (Fin (world_size / 2 ^ k)) (to_float n))) \<and>
         \<bar>fval (fadd (Fin (- world_max)) (fmul (Fin (world_size / 2 ^ k)) (to_float n)))
            - (- world_max + world_size / 2 ^ k * of_int n)\<bar> \<le> 7 / 2 ^ 29"
proof -
  let ?s = "world_size / 2 ^ k"
  let ?n = "of_int n :: rat"
  let ?P = "fmul (Fin ?s) (to_float n)"
  let ?A = "fval ?P"
  from tile_product_error[OF assms]
  have P: "finite_float ?P" "0 \<le> ?A" "\<bar>?A - ?s * ?n\<bar> \<le> 3 / 2 ^ 28" by auto
  from tile_width_times[OF n] have sn: "?s * ?n \<le> world_size" by auto
  have "?A \<le> world_size + 3 / 2 ^ 28" using P(3) sn by (rule abs_upper)
  then have up: "- world_max + ?A \<le> world_max + 3 / 2 ^ 28"
    using world_numeric(5) by simp
  have lo: "- world_max \<le> - world_max + ?A" using P(2) by simp
  have "- (2 ^ 25) < - world_max" using world_numeric(2) by simp
  with lo up have "\<bar>- world_max + ?A\<bar> < 2 ^ 25"
    using world_numeric(2) by (rule abs_between)
  then have b: "\<bar>- world_max + ?A\<bar> < 2 powi 25" by simp
  from round_val_abs_error[OF b]
  have r: "\<bar>round_val (- world_max + ?A) - (- world_max + ?A)\<bar> \<le> 1 / 2 ^ 29"
    by (simp add: power_int_minus field_simps)
  let ?V = "round_val (- world_max + ?A)"
  have "\<bar>?V\<bar> < 2 powi 25 + 1 / 2 ^ 29" using r b by (rule abs_grow)
  also have "\<dots> < (2::rat) powi 1024" by simp
  finally have "\<bar>?V\<bar> < 2 powi 1024" .
  from fl_finite[OF this]
  have f: "finite_float (fl neg (- world_max + ?A)) \<and> fval (fl neg (- world_max + ?A)) = ?V" for neg
    by simp
  have a: "fadd (Fin (- world_max)) ?P = fl (Fin (- world_max) = NegZero \<and> ?P = NegZero) (- world_max + ?A)"
    using fadd_finite[of "Fin (- world_max)" ?P] P(1) by (simp add: finite_float_def)
  have "\<bar>(- world_max + ?A) - (- world_max + ?s * ?n)\<bar> \<le> 3 / 2 ^ 28"
    using P(3) by (rule abs_shift(2))
  with r have "\<bar>?V - (- world_max + ?s * ?n)\<bar> \<le> 7 / 2 ^ 29" by (rule abs_tri) simp
  then show ?thesis unfolding a using f by simp
qed

lemma ycorner_error:
  assumes n: "0 \<le> n" "n \<le> 2 ^ k" and k: "k \<le> 1023"
  shows "finite_float (fsub (Fin world_max) (fmul (Fin (world_size / 2 ^ k)) (to_float n))) \<and>
         \<bar>fval (fsub (Fin world_max) (fmul (Fin (world_size / 2 ^ k)) (to_float n)))
            - (world_max - world_size / 2 ^ k * of_int n)\<bar> \<le> 7 / 2 ^ 29"
proof -
  let ?s = "world_size / 2 ^ k"
  let ?n = "of_int n :: rat"
  let ?P = "fmul (Fin ?s) (to_float n)"
  let ?A = "fval ?P"
  from tile_product_error[OF assms]
  have P: "finite_float ?P" "0 \<le> ?A" "\<bar>?A - ?s * ?n\<bar> \<le> 3 / 2 ^ 28" by auto
  from tile_width_times[OF n] have sn: "?s * ?n \<le> world_size" by auto
  have "?A \<le> world_size + 3 / 2 ^ 28" using P(3) sn by (rule abs_upper)
  then have lo: "- (world_max + 3 / 2 ^ 28) \<le> world_max - ?A"
    using world_numeric(5) by simp
  have up: "world_max - ?A \<le> world_max" using P(2) by simp
  have m: "- (2 ^ 25) < - (world_max + 3 / 2 ^ 28)" "world_max < 2 ^ 25"
    using world_numeric(2) by simp_all
  from lo up m have "\<bar>world_max - ?A\<bar> < 2 ^ 25" by (rule abs_between)
  then have b: "\<bar>world_max - ?A\<bar> < 2 powi 25" by simp
  from round_val_abs_error[OF b]
  have r: "\<bar>round_val (world_max - ?A) - (world_max - ?A)\<bar> \<le> 1 / 2 ^ 29"
    by (simp add: power_int_minus field_simps)
  let ?V = "round_val (world_max - ?A)"
  have "\<bar>?V\<bar> < 2 powi 25 + 1 / 2 ^ 29" using r b by (rule abs_grow)
  also have "\<dots> < (2::rat) powi 1024" by simp
  finally have "\<bar>?V\<bar> < 2 powi 1024" .
  from fl_finite[OF this]
  have f: "finite_float (fl neg (world_max - ?A)) \<and> fval (fl neg (world_max - ?A)) = ?V" for neg
    by simp
  obtain m where a: "fsub (Fin world_max) ?P = fl m (world_max - ?A)"
    using fsub_finite[of "Fin world_max" ?P] P(1) by (auto simp add: finite_float_def)
  have "\<bar>(world_max - ?A) - (world_max - ?s * ?n)\<bar> \<le> 3 / 2 ^ 28"
    using P(3) by (rule abs_shift(1))
  with r have "\<bar>?V - (world_max - ?s * ?n)\<bar> \<le> 7 / 2 ^ 29" by (rule abs_tri) simp
  then show ?thesis unfolding a using f by simp
qed
text \<open>The edges of a tile are in order, whatever the zoom.\<close>

lemma fl_finite_val: "finite_float (fl neg r) \<Longrightarrow> fval (fl neg r) = round_val r"
  by (auto simp add: fl_def Let_def finite_float_def round_val_0 split: if_splits)

lemma tile_product_mono:
  assumes n: "0 \<le> n" "n \<le> n'" "n' \<le> 2 ^ k" and k: "k \<le> 1023"
  shows "fval (fmul (Fin (world_size / 2 ^ k)) (to_float n))
           \<le> fval (fmul (Fin (world_size / 2 ^ k)) (to_float n'))"
proof -
  let ?s = "world_size / 2 ^ k"
  have s0: "0 \<le> ?s" using world_size_bounds(3) by simp
  have b: "0 \<le> n'" "n \<le> 2 ^ k" using n by simp_all
  have "(2::int) ^ k \<le> 2 ^ 1023" using k by (intro power_increasing) auto
  then have n1023: "n \<le> 2 ^ 1023" "n' \<le> 2 ^ 1023" using n b by simp_all
  have X: "finite_float (to_float n)" "finite_float (to_float n')"
    using to_float_error[OF n(1) n1023(1)] to_float_error[OF b(1) n1023(2)] by auto
  then have Xv: "fval (to_float n) = round_val (of_int n)" "fval (to_float n') = round_val (of_int n')"
    unfolding to_float_def by (auto dest: fl_finite_val)
  have "(of_int n :: rat) \<le> of_int n'" using n(2) by simp
  then have "fval (to_float n) \<le> fval (to_float n')" unfolding Xv by (rule round_val_mono)
  then have m: "?s * fval (to_float n) \<le> ?s * fval (to_float n')" using s0 by (rule mult_left_mono)
  have P: "finite_float (fmul (Fin ?s) (to_float n))" "finite_float (fmul (Fin ?s) (to_float n'))"
    using tile_product_error[OF n(1) b(2) k] tile_product_error[OF b(1) n(3) k] by auto
  have e: "fmul (Fin ?s) (to_float n) = fl (is_neg (Fin ?s) \<noteq> is_neg (to_float n)) (?s * fval (to_float n))"
    "fmul (Fin ?s) (to_float n') = fl (is_neg (Fin ?s) \<noteq> is_neg (to_float n')) (?s * fval (to_float n'))"
    using fmul_finite[of "Fin ?s" "to_float n"] fmul_finite[of "Fin ?s" "to_float n'"] X
    by (simp_all add: finite_float_def)
  have "fval (fmul (Fin ?s) (to_float n)) = round_val (?s * fval (to_float n))"
    "fval (fmul (Fin ?s) (to_float n')) = round_val (?s * fval (to_float n'))"
    using P unfolding e by (auto dest: fl_finite_val)
  then show ?thesis using round_val_mono[OF m] by simp
qed

lemma xcorner_mono:
  assumes n: "0 \<le> n" "n \<le> n'" "n' \<le> 2 ^ k" and k: "k \<le> 1023"
  shows "fval (fadd (Fin (- world_max)) (fmul (Fin (world_size / 2 ^ k)) (to_float n)))
           \<le> fval (fadd (Fin (- world_max)) (fmul (Fin (world_size / 2 ^ k)) (to_float n')))"
proof -
  let ?P = "fmul (Fin (world_size / 2 ^ k)) (to_float n)"
  let ?P' = "fmul (Fin (world_size / 2 ^ k)) (to_float n')"
  have b: "0 \<le> n'" "n \<le> 2 ^ k" using n by simp_all
  have P: "finite_float ?P" "finite_float ?P'"
    using tile_product_error[OF n(1) b(2) k] tile_product_error[OF b(1) n(3) k] by auto
  have V: "finite_float (fadd (Fin (- world_max)) ?P)" "finite_float (fadd (Fin (- world_max)) ?P')"
    using xcorner_error[OF n(1) b(2) k] xcorner_error[OF b(1) n(3) k] by auto
  have e: "fadd (Fin (- world_max)) ?P = fl (Fin (- world_max) = NegZero \<and> ?P = NegZero) (- world_max + fval ?P)"
    "fadd (Fin (- world_max)) ?P' = fl (Fin (- world_max) = NegZero \<and> ?P' = NegZero) (- world_max + fval ?P')"
    using fadd_finite[of "Fin (- world_max)" ?P] fadd_finite[of "Fin (- world_max)" ?P'] P
    by (simp_all add: finite_float_def)
  have v: "fval (fadd (Fin (- world_max)) ?P) = round_val (- world_max + fval ?P)"
    "fval (fadd (Fin (- world_max)) ?P') = round_val (- world_max + fval ?P')"
    using V unfolding e by (auto dest: fl_finite_val)
  have "- world_max + fval ?P \<le> - world_max + fval ?P'"
    using tile_product_mono[OF assms] by simp
  then show ?thesis unfolding v by (rule round_val_mono)
qed

lemma ycorner_mono:
  assumes n: "0 \<le> n" "n \<le> n'" "n' \<le> 2 ^ k" and k: "k \<le> 1023"
  shows "fval (fsub (Fin world_max) (fmul (Fin (world_size / 2 ^ k)) (to_float n')))
           \<le> fval (fsub (Fin world_max) (fmul (Fin (world_size / 2 ^ k)) (to_float n)))"
proof -
  let ?P = "fmul (Fin (world_size / 2 ^ k)) (to_float n)"
  let ?P' = "fmul (Fin (world_size / 2 ^ k)) (to_float n')"
  have b: "0 \<le> n'" "n \<le> 2 ^ k" using n by simp_all
  have P: "finite_float ?P" "finite_float ?P'"
    using tile_product_error[OF n(1) b(2) k] tile_product_error[OF b(1) n(3) k] by auto
  have V: "finite_float (fsub (Fin world_max) ?P)" "finite_float (fsub (Fin world_max) ?P')"
    using ycorner_error[OF n(1) b(2) k] ycorner_error[OF b(1) n(3) k] by auto
  obtain m where e: "fsub (Fin world_max) ?P = fl m (world_max - fval ?P)"
    using fsub_finite[of "Fin world_max" ?P] P(1) by (auto simp add: finite_float_def)
  obtain m' where e': "fsub (Fin world_max) ?P' = fl m' (world_max - fval ?P')"
    using fsub_finite[of "Fin world_max" ?P'] P(2) by (auto simp add: finite_float_def)
  have v: "fval (fsub (Fin world_max) ?P) = round_val (world_max - fval ?P)"
    using V(1) unfolding e by (rule fl_finite_val)
  have v': "fval (fsub (Fin world_max) ?P') = round_val (world_max - fval ?P')"
    using V(2) unfolding e' by (rule fl_finite_val)
  have "world_max - fval ?P' \<le> world_max - fval ?P"
    using tile_product_mono[OF assms] by simp
  then show ?thesis unfolding v v' by (rule round_val_mono)
qed

lemma side_x:
  fixes a b m p s :: rat
  shows "\<bar>a - (m + (p + s))\<bar> \<le> e \<Longrightarrow> \<bar>b - (m + p)\<bar> \<le> e \<Longrightarrow> e + e \<le> e2 \<Longrightarrow> \<bar>(a - b) - s\<bar> \<le> e2"
  by linarith

lemma side_y:
  fixes a b m p s :: rat
  shows "\<bar>a - (m - (p + s))\<bar> \<le> e \<Longrightarrow> \<bar>b - (m - p)\<bar> \<le> e \<Longrightarrow> e + e \<le> e2 \<Longrightarrow> \<bar>(b - a) - s\<bar> \<le> e2"
  by linarith

lemma side_pos:
  fixes d s :: rat
  shows "\<bar>(a - b) - s\<bar> \<le> e2 \<Longrightarrow> e2 < s \<Longrightarrow> b < a"
  by linarith

lemma tile_width_lower:
  assumes "k \<le> 50"
  shows "(7::rat) / 2 ^ 28 < world_size / 2 ^ k"
proof -
  have "(2::rat) ^ k \<le> 2 ^ 50" using assms by (intro power_increasing) auto
  then have "world_size / 2 ^ 50 \<le> world_size / 2 ^ k"
    using world_size_bounds(3) by (intro divide_left_mono) auto
  moreover have "(7::rat) / 2 ^ 28 < world_size / 2 ^ 50" by (simp add: world_size_def)
  ultimately show ?thesis by (rule less_le_trans[rotated])
qed

lemma envelope_sides:
  assumes t: "t ''zoom'' = Some (TInt z)" "t ''x'' = Some (TInt x)" "t ''y'' = Some (TInt y)"
    and z: "0 \<le> z" "z \<le> 1023" and x: "0 \<le> x" "x < 2 ^ nat z" and y: "0 \<le> y" "y < 2 ^ nat z"
  shows "\<exists>a k xmin xmax ymin ymax.
      tileToEnvelope t h = (Inr a, k) \<and>
      (k ! a) ''xmin'' = Some (OFloat xmin) \<and> (k ! a) ''xmax'' = Some (OFloat xmax) \<and>
      (k ! a) ''ymin'' = Some (OFloat ymin) \<and> (k ! a) ''ymax'' = Some (OFloat ymax) \<and>
      finite_float xmin \<and> finite_float xmax \<and> finite_float ymin \<and> finite_float ymax \<and>
      \<bar>(fval xmax - fval xmin) - world_size / 2 ^ nat z\<bar> \<le> 7 / 2 ^ 28 \<and>
      \<bar>(fval ymax - fval ymin) - world_size / 2 ^ nat z\<bar> \<le> 7 / 2 ^ 28 \<and>
      fval xmin \<le> fval xmax \<and> fval ymin \<le> fval ymax \<and>
      (z \<le> 50 \<longrightarrow> fval xmin < fval xmax \<and> fval ymin < fval ymax)"
proof -
  let ?k = "nat z"
  let ?s = "world_size / 2 ^ ?k"
  let ?xmin = "fadd (Fin (- world_max)) (fmul (Fin ?s) (to_float x))"
  let ?xmax = "fadd (Fin (- world_max)) (fmul (Fin ?s) (to_float (x + 1)))"
  let ?ymin = "fsub (Fin world_max) (fmul (Fin ?s) (to_float (y + 1)))"
  let ?ymax = "fsub (Fin world_max) (fmul (Fin ?s) (to_float y))"
  have k: "?k \<le> 1023" using z by simp
  have x1: "0 \<le> x + 1" "x + 1 \<le> 2 ^ ?k" "x \<le> 2 ^ ?k" using x by simp_all
  have y1: "0 \<le> y + 1" "y + 1 \<le> 2 ^ ?k" "y \<le> 2 ^ ?k" using y by simp_all
  have sx: "?s * of_int (x + 1) = ?s * of_int x + ?s"
    by (simp only: of_int_add of_int_1 distrib_left mult_1_right)
  have sy: "?s * of_int (y + 1) = ?s * of_int y + ?s"
    by (simp only: of_int_add of_int_1 distrib_left mult_1_right)
  from xcorner_error[OF x(1) x1(3) k]
  have a: "finite_float ?xmin" "\<bar>fval ?xmin - (- world_max + ?s * of_int x)\<bar> \<le> 7 / 2 ^ 29" by auto
  from xcorner_error[OF x1(1,2) k]
  have b: "finite_float ?xmax" "\<bar>fval ?xmax - (- world_max + (?s * of_int x + ?s))\<bar> \<le> 7 / 2 ^ 29"
    unfolding sx by auto
  from ycorner_error[OF y(1) y1(3) k]
  have c: "finite_float ?ymax" "\<bar>fval ?ymax - (world_max - ?s * of_int y)\<bar> \<le> 7 / 2 ^ 29" by auto
  from ycorner_error[OF y1(1,2) k]
  have d: "finite_float ?ymin" "\<bar>fval ?ymin - (world_max - (?s * of_int y + ?s))\<bar> \<le> 7 / 2 ^ 29"
    unfolding sy by auto
  have wx: "\<bar>(fval ?xmax - fval ?xmin) - ?s\<bar> \<le> 7 / 2 ^ 28"
    using b(2) a(2) by (rule side_x) simp
  have wy: "\<bar>(fval ?ymax - fval ?ymin) - ?s\<bar> \<le> 7 / 2 ^ 28"
    using d(2) c(2) by (rule side_y) simp
  have st: "fval ?xmin < fval ?xmax \<and> fval ?ymin < fval ?ymax" if "z \<le> 50"
  proof -
    have "?k \<le> 50" using that by simp
    then have "7 / 2 ^ 28 < ?s" by (rule tile_width_lower)
    then show ?thesis using side_pos[OF wx] side_pos[OF wy] by simp
  qed
  have ox: "fval ?xmin \<le> fval ?xmax"
    using x(1) x1(2) k by (intro xcorner_mono) simp_all
  have oy: "fval ?ymin \<le> fval ?ymax"
    using y(1) y1(2) k by (intro ycorner_mono) simp_all
  have e: "tileToEnvelope t h = (Inr (length h),
     h @ [[''xmin'' \<mapsto> OFloat ?xmin, ''xmax'' \<mapsto> OFloat ?xmax,
           ''ymin'' \<mapsto> OFloat ?ymin, ''ymax'' \<mapsto> OFloat ?ymax]])"
    by (rule tileToEnvelope_vals[OF assms])
  show ?thesis
    apply (rule exI[of _ "length h"])
    apply (rule exI[of _ "h @ [[''xmin'' \<mapsto> OFloat ?xmin, ''xmax'' \<mapsto> OFloat ?xmax,
           ''ymin'' \<mapsto> OFloat ?ymin, ''ymax'' \<mapsto> OFloat ?ymax]]"])
    apply (rule exI[of _ ?xmin], rule exI[of _ ?xmax], rule exI[of _ ?ymin], rule exI[of _ ?ymax])
    using e a(1) b(1) c(1) d(1) wx wy ox oy st apply simp
    done
qed
lemma to_float_53:
  "to_float 9007199254740990 = Fin 9007199254740990"
  "to_float 9007199254740991 = Fin 9007199254740991"
  unfolding to_float_def
   apply (simp, rule fl_exact[where e = 52 and n = 9007199254740990]; simp)
  apply (simp, rule fl_exact[where e = 52 and n = 9007199254740991]; simp)
  done

lemma product_53:
  "fmul (Fin (world_size / 2 ^ 53)) (Fin 9007199254740990) = Fin (5378777689100422 / 134217728)"
  "fmul (Fin (world_size / 2 ^ 53)) (Fin 9007199254740991) = Fin (5378777689100422 / 134217728)"
  "fmul (Fin (world_size / 2 ^ 53)) (Fin 1) = Fin (world_size / 2 ^ 53)"
  "fmul (Fin (world_size / 2 ^ 53)) (Fin 0) = Fin 0"
  unfolding fmul_Fin
     apply (rule fl_nearest[where e = 25 and n = 5378777689100422]; simp add: world_size_def)
    apply (rule fl_nearest[where e = 25 and n = 5378777689100422]; simp add: world_size_def)
   apply (simp, rule fl_exact[where e = "- 28" and n = 5378777689100423]; simp add: world_size_def)
  apply (simp add: fl_0 world_size_def)
  done

lemma corner_53:
  "fadd (Fin (- world_max)) (Fin (5378777689100422 / 134217728)) = Fin (5378777689100421 / 268435456)"
  "fsub (Fin world_max) (Fin (world_size / 2 ^ 53)) = Fin (5378777689100422 / 268435456)"
  "fsub (Fin world_max) (Fin 0) = Fin (5378777689100423 / 268435456)"
  unfolding fadd_Fin fsub_Fin
    apply (simp add: world_max_def, rule fl_exact[where e = 24 and n = 5378777689100421]; simp)
   apply (rule fl_nearest[where e = 24 and n = 5378777689100422]; simp add: world_max_def world_size_def)
  apply (simp add: fl_world, simp add: world_max_def)
  done

lemma envelope_53:
  "tileToEnvelope (tile_of 53 9007199254740990 0) [] =
    (Inr 0, [[''xmin'' \<mapsto> OFloat (Fin (5378777689100421 / 268435456)),
              ''xmax'' \<mapsto> OFloat (Fin (5378777689100421 / 268435456)),
              ''ymin'' \<mapsto> OFloat (Fin (5378777689100422 / 268435456)),
              ''ymax'' \<mapsto> OFloat (Fin (5378777689100423 / 268435456))]])"
proof -
  have n: "nat 53 = 53" "9007199254740990 + 1 = (9007199254740991::int)" "0 + 1 = (1::int)"
    by simp_all
  have "tileToEnvelope (tile_of 53 9007199254740990 0) [] = (Inr (length ([]::heap)),
     [] @ [[''xmin'' \<mapsto> OFloat (fadd (Fin (- world_max)) (fmul (Fin (world_size / 2 ^ nat 53)) (to_float 9007199254740990))),
           ''xmax'' \<mapsto> OFloat (fadd (Fin (- world_max)) (fmul (Fin (world_size / 2 ^ nat 53)) (to_float (9007199254740990 + 1)))),
           ''ymin'' \<mapsto> OFloat (fsub (Fin world_max) (fmul (Fin (world_size / 2 ^ nat 53)) (to_float (0 + 1)))),
           ''ymax'' \<mapsto> OFloat (fsub (Fin world_max) (fmul (Fin (world_size / 2 ^ nat 53)) (to_float 0)))]])"
    by (rule tileToEnvelope_vals[OF tile_of_simps(1-3)]) simp_all
  then show ?thesis
    by (simp only: n to_float_53 to_float_examples product_53 corner_53 list.size append_Nil)
qed

text \<open>
  C7 (as amended). For a valid tile with zoom at most 1023 the envelope is returned with
  finite edges; each side length, \<open>xmax - xmin\<close> and \<open>ymax - ymin\<close>, differs from
  \<open>worldSize / 2 ^ zoom\<close> by at most \<open>7 / 2 ^ 28\<close> (about \<open>2.6e-8\<close>); \<open>xmin \<le> xmax\<close>
  and \<open>ymin \<le> ymax\<close>; and for zoom at most 50, \<open>xmin < xmax\<close> and \<open>ymin < ymax\<close>.
\<close>

theorem envelope_square_within_tolerance:
  assumes "t ''zoom'' = Some (TInt z)" and "t ''x'' = Some (TInt x)" and "t ''y'' = Some (TInt y)"
    and "0 \<le> z" and "z \<le> 1023" and "0 \<le> x" and "x < 2 ^ nat z" and "0 \<le> y" and "y < 2 ^ nat z"
  shows "\<exists>a k xmin xmax ymin ymax.
      tileToEnvelope t h = (Inr a, k) \<and>
      (k ! a) ''xmin'' = Some (OFloat xmin) \<and> (k ! a) ''xmax'' = Some (OFloat xmax) \<and>
      (k ! a) ''ymin'' = Some (OFloat ymin) \<and> (k ! a) ''ymax'' = Some (OFloat ymax) \<and>
      finite_float xmin \<and> finite_float xmax \<and> finite_float ymin \<and> finite_float ymax \<and>
      \<bar>(fval xmax - fval xmin) - world_size / 2 ^ nat z\<bar> \<le> 7 / 2 ^ 28 \<and>
      \<bar>(fval ymax - fval ymin) - world_size / 2 ^ nat z\<bar> \<le> 7 / 2 ^ 28 \<and>
      fval xmin \<le> fval xmax \<and> fval ymin \<le> fval ymax \<and>
      (z \<le> 50 \<longrightarrow> fval xmin < fval xmax \<and> fval ymin < fval ymax)"
  using assms by (rule envelope_sides)

theorem envelope_square_within_tolerance_witness:
  "\<exists>a k xmin xmax ymin ymax.
      tileToEnvelope (tile_of 9 255 170) [] = (Inr a, k) \<and>
      (k ! a) ''xmin'' = Some (OFloat xmin) \<and> (k ! a) ''xmax'' = Some (OFloat xmax) \<and>
      (k ! a) ''ymin'' = Some (OFloat ymin) \<and> (k ! a) ''ymax'' = Some (OFloat ymax) \<and>
      finite_float xmin \<and> finite_float xmax \<and> finite_float ymin \<and> finite_float ymax \<and>
      \<bar>(fval xmax - fval xmin) - world_size / 2 ^ 9\<bar> \<le> 7 / 2 ^ 28 \<and>
      \<bar>(fval ymax - fval ymin) - world_size / 2 ^ 9\<bar> \<le> 7 / 2 ^ 28 \<and>
      fval xmin \<le> fval xmax \<and> fval ymin \<le> fval ymax \<and>
      fval xmin < fval xmax \<and> fval ymin < fval ymax"
  using envelope_square_within_tolerance[of "tile_of 9 255 170" 9 255 170 "[]"]
  by (simp add: tile_of_simps)

text \<open>
  The claim as stated fails at zoom 53: the tile \<open>(53, 2 ^ 53 - 2, 0)\<close> is valid, and its
  envelope has \<open>xmin = xmax\<close>, because the tile is narrower than the spacing of the
  doubles near the world bound.
\<close>

theorem envelope_square_counterexample:
  "tileIsValid (tile_of 53 9007199254740990 0) = Inr True \<and>
   tileToEnvelope (tile_of 53 9007199254740990 0) [] =
    (Inr 0, [[''xmin'' \<mapsto> OFloat (Fin (5378777689100421 / 268435456)),
              ''xmax'' \<mapsto> OFloat (Fin (5378777689100421 / 268435456)),
              ''ymin'' \<mapsto> OFloat (Fin (5378777689100422 / 268435456)),
              ''ymax'' \<mapsto> OFloat (Fin (5378777689100423 / 268435456))]])"
  using tileIsValid_int[of "tile_of 53 9007199254740990 0" 53 9007199254740990 0] envelope_53
  by (simp add: tile_of_simps)


subsection \<open>Densification and the store\<close>

lemma fdiv_4: "\<exists>s. fdiv w (Fin 4) = Inr s"
  by (simp add: fdiv_def)

lemma envelopeToBoundsSQL_store:
  assumes "env < length h" and "(h ! env) ''xmin'' = Some (OFloat a)"
    and "(h ! env) ''xmax'' = Some (OFloat b)" and "fdiv (fsub b a) (Fin 4) = Inr s"
  shows "snd (envelopeToBoundsSQL repr env h) = h[env := (h ! env)(''segSize'' \<mapsto> OFloat s)]"
  using assms
  by (simp add: envelopeToBoundsSQL_def bnd_def getitem_def get_dict_def lift_def subscript_def
      obj_sub_def float_div_int_def DENSIFY_FACTOR_def float_of_int_examples bindE_simps
      setitem_def)

lemma envelopeToBoundsSQL_result:
  assumes "env < length h" and "(h ! env) ''xmin'' = Some (OFloat a)"
    and "(h ! env) ''xmax'' = Some (OFloat b)" and "(h ! env) ''ymin'' = Some (OFloat c)"
    and "(h ! env) ''ymax'' = Some (OFloat d)" and "fdiv (fsub b a) (Fin 4) = Inr s"
  shows "fst (envelopeToBoundsSQL repr env h) =
     Inr (''ST_Segmentize(ST_MakeEnvelope('' @ repr a @ '', '' @ repr c @ '', '' @ repr b @
          '', '' @ repr d @ '', 3857),'' @ repr s @ '')'')"
  using assms
  by (simp add: envelopeToBoundsSQL_def bnd_def getitem_def get_dict_def lift_def subscript_def
      obj_sub_def float_div_int_def DENSIFY_FACTOR_def float_of_int_examples bindE_simps
      setitem_def bounds_tmpl_def fmt_obj_def)

lemma envelopeToBoundsSQL_frame:
  "length (snd (envelopeToBoundsSQL repr env h)) = length h \<and>
   (\<forall>a. a \<noteq> env \<longrightarrow> snd (envelopeToBoundsSQL repr env h) ! a = h ! a)"
  by (auto simp add: envelopeToBoundsSQL_def bnd_def getitem_def get_dict_def lift_def
      setitem_def split: sum.splits prod.splits if_splits)

lemma envelopeToSQL_frame:
  assumes "a < length h" and "a \<noteq> env"
  shows "snd (envelopeToSQL repr T env h) ! a = h ! a"
proof -
  have *: "\<And>h0. length (snd (envelopeToBoundsSQL repr env h0)) = length h0"
          "\<And>h0 a. a \<noteq> env \<Longrightarrow> snd (envelopeToBoundsSQL repr env h0) ! a = h0 ! a"
    using envelopeToBoundsSQL_frame by blast+
  show ?thesis
  proof (cases "T < length h")
    case False
    then show ?thesis
      by (simp add: envelopeToSQL_def dict_copy_def bnd_def get_dict_def)
  next
    case True
    obtain r h1 where e: "envelopeToBoundsSQL repr env (h @ [h ! T]) = (r, h1)" by fastforce
    have l: "length h1 = Suc (length h)" using *(1)[of "h @ [h ! T]"] e by simp
    have n: "h1 ! a = h ! a" using *(2)[of a "h @ [h ! T]"] e assms by (simp add: nth_append)
    show ?thesis
      using True e l n assms
      by (cases r) (auto simp add: envelopeToSQL_def dict_copy_def bnd_def get_dict_def
          setitem_def lift_def)
  qed
qed

lemma format_sql:
  assumes "kw ''env'' = Some e" and "kw ''geomColumn'' = Some g" and "kw ''attrColumns'' = Some a"
    and "kw ''table'' = Some t" and "kw ''srid'' = Some s"
  shows "\<exists>qtext. format_tmpl repr sql_tmpl kw = Inr qtext"
  using assms by (simp add: sql_tmpl_def subscript_def bindE_simps)

lemma seg_example: "fdiv (fsub (Fin 4) (Fin 0)) (Fin 4) = Inr (Fin 1)"
  using fl_int_examples[of False] by (simp add: fsub_Fin fdiv_def)

lemma envelopeToBoundsSQL_complete:
  assumes "env < length h" and "(h ! env) ''xmin'' = Some (OFloat a)"
    and "(h ! env) ''xmax'' = Some (OFloat b)" and "(h ! env) ''ymin'' = Some (OFloat c)"
    and "(h ! env) ''ymax'' = Some (OFloat d)" and "fdiv (fsub b a) (Fin 4) = Inr s"
  shows "envelopeToBoundsSQL repr env h =
     (Inr (''ST_Segmentize(ST_MakeEnvelope('' @ repr a @ '', '' @ repr c @ '', '' @ repr b @
           '', '' @ repr d @ '', 3857),'' @ repr s @ '')''),
      h[env := (h ! env)(''segSize'' \<mapsto> OFloat s)])"
  using envelopeToBoundsSQL_store[OF assms(1-3,6), of repr]
    envelopeToBoundsSQL_result[OF assms, of repr]
  by (simp add: prod_eq_iff)

lemma envelopeToSQL_complete:
  assumes "env < length h" and "T < length h"
    and "(h ! env) ''xmin'' = Some (OFloat a)" and "(h ! env) ''xmax'' = Some (OFloat b)"
    and "(h ! env) ''ymin'' = Some (OFloat c)" and "(h ! env) ''ymax'' = Some (OFloat d)"
    and "fdiv (fsub b a) (Fin 4) = Inr s"
    and "bounds = ''ST_Segmentize(ST_MakeEnvelope('' @ repr a @ '', '' @ repr c @ '', '' @
           repr b @ '', '' @ repr d @ '', 3857),'' @ repr s @ '')''"
  shows "envelopeToSQL repr T env h =
     (format_tmpl repr sql_tmpl ((h ! T)(''env'' \<mapsto> OStr bounds)),
      h[env := (h ! env)(''segSize'' \<mapsto> OFloat s)] @ [(h ! T)(''env'' \<mapsto> OStr bounds)])"
proof -
  let ?h0 = "h @ [h ! T]"
  have 0: "env < length ?h0" "(?h0 ! env) ''xmin'' = Some (OFloat a)"
    "(?h0 ! env) ''xmax'' = Some (OFloat b)" "(?h0 ! env) ''ymin'' = Some (OFloat c)"
    "(?h0 ! env) ''ymax'' = Some (OFloat d)"
    using assms(1-6) by (simp_all add: nth_append)
  have e: "envelopeToBoundsSQL repr env ?h0 =
      (Inr bounds, ?h0[env := (?h0 ! env)(''segSize'' \<mapsto> OFloat s)])"
    unfolding assms(8) by (rule envelopeToBoundsSQL_complete[OF 0 assms(7)])
  define h1 where "h1 = h[env := (h ! env)(''segSize'' \<mapsto> OFloat s)]"
  have l: "length h1 = length h" by (simp add: h1_def)
  have u: "?h0[env := (?h0 ! env)(''segSize'' \<mapsto> OFloat s)] = h1 @ [h ! T]"
    using assms(1) by (simp add: list_update_append nth_append h1_def)
  have c: "dict_copy T h = (Inr (length h), ?h0)"
    using assms(2) by (simp add: dict_copy_def bnd_def get_dict_def)
  have w: "setitem (length h) ''env'' (OStr bounds) (h1 @ [h ! T]) =
           (Inr (), h1 @ [(h ! T)(''env'' \<mapsto> OStr bounds)])"
    using setitem_last[of h1 "''env''" "OStr bounds" "h ! T"] by (simp only: l)
  have g: "get_dict (length h) (h1 @ [(h ! T)(''env'' \<mapsto> OStr bounds)]) =
           (Inr ((h ! T)(''env'' \<mapsto> OStr bounds)), h1 @ [(h ! T)(''env'' \<mapsto> OStr bounds)])"
    using l by (simp add: get_dict_def nth_append)
  show ?thesis
    unfolding h1_def[symmetric]
    by (simp add: envelopeToSQL_def bnd_def c e u w g lift_def)
qed

lemma envelope_input_changed:
  "(snd (envelopeToBoundsSQL (\<lambda>f. [])  0
      [[''xmin'' \<mapsto> OFloat (Fin 0), ''ymin'' \<mapsto> OFloat (Fin 0),
        ''xmax'' \<mapsto> OFloat (Fin 4), ''ymax'' \<mapsto> OFloat (Fin 4)]]) ! 0) ''segSize''
     = Some (OFloat (Fin 1))"
proof -
  have "fdiv (fsub (Fin 4) (Fin 0)) (Fin 4) = Inr (Fin 1)"
    using fl_int_examples[of False] by (simp add: fsub_Fin fdiv_def)
  from envelopeToBoundsSQL_store[where env = 0 and a = "Fin 0" and b = "Fin 4", OF _ _ _ this]
  show ?thesis by simp
qed

text \<open>
  C5. For an envelope, a \<^verbatim>\<open>dict\<close> whose four edges are floats, \<^verbatim>\<open>envelopeToBoundsSQL\<close>
  returns the bounds expression and stores under \<^verbatim>\<open>segSize\<close> exactly the double
  \<^verbatim>\<open>(xmax - xmin) / 4\<close>: the float difference divided by the densification factor 4.
\<close>

theorem densifier_segment_size:
  assumes "env < length h" and "(h ! env) ''xmin'' = Some (OFloat a)"
    and "(h ! env) ''xmax'' = Some (OFloat b)" and "(h ! env) ''ymin'' = Some (OFloat c)"
    and "(h ! env) ''ymax'' = Some (OFloat d)"
  shows "\<exists>s. fdiv (fsub b a) (Fin 4) = Inr s \<and> float_of_int DENSIFY_FACTOR = Inr (Fin 4) \<and>
           envelopeToBoundsSQL repr env h =
             (Inr (''ST_Segmentize(ST_MakeEnvelope('' @ repr a @ '', '' @ repr c @ '', '' @
                   repr b @ '', '' @ repr d @ '', 3857),'' @ repr s @ '')''),
              h[env := (h ! env)(''segSize'' \<mapsto> OFloat s)])"
proof -
  obtain s where s: "fdiv (fsub b a) (Fin 4) = Inr s" using fdiv_4 by blast
  show ?thesis
    using s envelopeToBoundsSQL_store[OF assms(1-3) s, of repr]
      envelopeToBoundsSQL_result[OF assms s, of repr]
    by (simp add: prod_eq_iff DENSIFY_FACTOR_def float_of_int_examples)
qed

theorem densifier_segment_size_witness:
  "\<exists>s. fdiv (fsub (Fin 4) (Fin 0)) (Fin 4) = Inr s \<and> float_of_int DENSIFY_FACTOR = Inr (Fin 4) \<and>
     envelopeToBoundsSQL (\<lambda>f. ''#'') 0
       [[''xmin'' \<mapsto> OFloat (Fin 0), ''ymin'' \<mapsto> OFloat (Fin 0),
         ''xmax'' \<mapsto> OFloat (Fin 4), ''ymax'' \<mapsto> OFloat (Fin 4)]] =
       (Inr ''ST_Segmentize(ST_MakeEnvelope(#, #, #, #, 3857),#)'',
        [[''xmin'' \<mapsto> OFloat (Fin 0), ''ymin'' \<mapsto> OFloat (Fin 0),
          ''xmax'' \<mapsto> OFloat (Fin 4), ''ymax'' \<mapsto> OFloat (Fin 4),
          ''segSize'' \<mapsto> OFloat s]])"
  using densifier_segment_size[of 0
      "[[''xmin'' \<mapsto> OFloat (Fin 0), ''ymin'' \<mapsto> OFloat (Fin 0),
         ''xmax'' \<mapsto> OFloat (Fin 4), ''ymax'' \<mapsto> OFloat (Fin 4)]]"
      "Fin 0" "Fin 4" "Fin 0" "Fin 4" "\<lambda>f. ''#''"]
  by simp

text \<open>
  C9 (as amended). Densification updates its input envelope in place: for an envelope of
  four floats, \<^verbatim>\<open>envelopeToBoundsSQL\<close> returns the text of the bounds expression, not a
  new envelope, and the store it leaves is the store it found with the entry
  \<^verbatim>\<open>segSize\<close> added to that very \<^verbatim>\<open>dict\<close>. Query construction, on a table
  configuration that has its four entries, returns the text of the query and leaves that
  store with one more object, the copy of the configuration to which it has added the
  bounds under \<^verbatim>\<open>env\<close>: the envelope is updated as before, and the configuration and
  every other object that existed are as they were.
\<close>

theorem densifier_updates_envelope_in_place:
  assumes "env < length h" and "T < length h" and "T \<noteq> env"
    and "(h ! env) ''xmin'' = Some (OFloat a)" and "(h ! env) ''xmax'' = Some (OFloat b)"
    and "(h ! env) ''ymin'' = Some (OFloat c)" and "(h ! env) ''ymax'' = Some (OFloat d)"
    and "(h ! T) ''geomColumn'' = Some g" and "(h ! T) ''attrColumns'' = Some ac"
    and "(h ! T) ''table'' = Some tb" and "(h ! T) ''srid'' = Some sr"
  shows "\<exists>s bounds sql.
           fdiv (fsub b a) (Fin 4) = Inr s \<and>
           bounds = ''ST_Segmentize(ST_MakeEnvelope('' @ repr a @ '', '' @ repr c @ '', '' @
                    repr b @ '', '' @ repr d @ '', 3857),'' @ repr s @ '')'' \<and>
           envelopeToBoundsSQL repr env h =
             (Inr bounds, h[env := (h ! env)(''segSize'' \<mapsto> OFloat s)]) \<and>
           format_tmpl repr sql_tmpl ((h ! T)(''env'' \<mapsto> OStr bounds)) = Inr sql \<and>
           envelopeToSQL repr T env h =
             (Inr sql,
              h[env := (h ! env)(''segSize'' \<mapsto> OFloat s)] @ [(h ! T)(''env'' \<mapsto> OStr bounds)]) \<and>
           snd (envelopeToSQL repr T env h) ! env = (h ! env)(''segSize'' \<mapsto> OFloat s) \<and>
           snd (envelopeToSQL repr T env h) ! T = h ! T \<and>
           (\<forall>i<length h. i \<noteq> env \<longrightarrow> snd (envelopeToSQL repr T env h) ! i = h ! i)"
proof -
  obtain s where s: "fdiv (fsub b a) (Fin 4) = Inr s" using fdiv_4 by blast
  define bounds where "bounds = ''ST_Segmentize(ST_MakeEnvelope('' @ repr a @ '', '' @ repr c @
      '', '' @ repr b @ '', '' @ repr d @ '', 3857),'' @ repr s @ '')''"
  obtain sql where q: "format_tmpl repr sql_tmpl ((h ! T)(''env'' \<mapsto> OStr bounds)) = Inr sql"
    using format_sql[of "(h ! T)(''env'' \<mapsto> OStr bounds)" "OStr bounds" g ac tb sr repr]
      assms(8-11) by auto
  have 1: "envelopeToBoundsSQL repr env h =
             (Inr bounds, h[env := (h ! env)(''segSize'' \<mapsto> OFloat s)])"
    unfolding bounds_def by (rule envelopeToBoundsSQL_complete[OF assms(1,4-7) s])
  have 2: "envelopeToSQL repr T env h =
             (Inr sql,
              h[env := (h ! env)(''segSize'' \<mapsto> OFloat s)] @ [(h ! T)(''env'' \<mapsto> OStr bounds)])"
    using envelopeToSQL_complete[OF assms(1,2,4-7) s bounds_def] q by simp
  have 3: "snd (envelopeToSQL repr T env h) ! env = (h ! env)(''segSize'' \<mapsto> OFloat s)"
    "snd (envelopeToSQL repr T env h) ! T = h ! T"
    "\<forall>i<length h. i \<noteq> env \<longrightarrow> snd (envelopeToSQL repr T env h) ! i = h ! i"
    using assms(1-3) by (simp_all add: 2 nth_append)
  from s bounds_def q 1 2 3 show ?thesis by blast
qed

theorem densifier_updates_envelope_in_place_witness:
  "envelopeToBoundsSQL (\<lambda>f. ''#'') 1
     [[''table'' \<mapsto> OStr ''roads'', ''srid'' \<mapsto> OStr ''4326'',
       ''geomColumn'' \<mapsto> OStr ''geom'', ''attrColumns'' \<mapsto> OStr ''id''],
      [''xmin'' \<mapsto> OFloat (Fin 0), ''ymin'' \<mapsto> OFloat (Fin 0),
       ''xmax'' \<mapsto> OFloat (Fin 4), ''ymax'' \<mapsto> OFloat (Fin 4)]] =
     (Inr ''ST_Segmentize(ST_MakeEnvelope(#, #, #, #, 3857),#)'',
      [[''table'' \<mapsto> OStr ''roads'', ''srid'' \<mapsto> OStr ''4326'',
        ''geomColumn'' \<mapsto> OStr ''geom'', ''attrColumns'' \<mapsto> OStr ''id''],
       [''xmin'' \<mapsto> OFloat (Fin 0), ''ymin'' \<mapsto> OFloat (Fin 0),
        ''xmax'' \<mapsto> OFloat (Fin 4), ''ymax'' \<mapsto> OFloat (Fin 4),
        ''segSize'' \<mapsto> OFloat (Fin 1)]]) \<and>
   (\<exists>sql. envelopeToSQL (\<lambda>f. ''#'') 0 1
     [[''table'' \<mapsto> OStr ''roads'', ''srid'' \<mapsto> OStr ''4326'',
       ''geomColumn'' \<mapsto> OStr ''geom'', ''attrColumns'' \<mapsto> OStr ''id''],
      [''xmin'' \<mapsto> OFloat (Fin 0), ''ymin'' \<mapsto> OFloat (Fin 0),
       ''xmax'' \<mapsto> OFloat (Fin 4), ''ymax'' \<mapsto> OFloat (Fin 4)]] =
     (Inr sql,
      [[''table'' \<mapsto> OStr ''roads'', ''srid'' \<mapsto> OStr ''4326'',
        ''geomColumn'' \<mapsto> OStr ''geom'', ''attrColumns'' \<mapsto> OStr ''id''],
       [''xmin'' \<mapsto> OFloat (Fin 0), ''ymin'' \<mapsto> OFloat (Fin 0),
        ''xmax'' \<mapsto> OFloat (Fin 4), ''ymax'' \<mapsto> OFloat (Fin 4),
        ''segSize'' \<mapsto> OFloat (Fin 1)],
       [''table'' \<mapsto> OStr ''roads'', ''srid'' \<mapsto> OStr ''4326'',
        ''geomColumn'' \<mapsto> OStr ''geom'', ''attrColumns'' \<mapsto> OStr ''id'',
        ''env'' \<mapsto> OStr ''ST_Segmentize(ST_MakeEnvelope(#, #, #, #, 3857),#)'']]))"
proof -
  let ?T = "[''table'' \<mapsto> OStr ''roads'', ''srid'' \<mapsto> OStr ''4326'',
             ''geomColumn'' \<mapsto> OStr ''geom'', ''attrColumns'' \<mapsto> OStr ''id'']"
  let ?E = "[''xmin'' \<mapsto> OFloat (Fin 0), ''ymin'' \<mapsto> OFloat (Fin 0),
             ''xmax'' \<mapsto> OFloat (Fin 4), ''ymax'' \<mapsto> OFloat (Fin 4)]"
  have "\<exists>s bounds sql.
      fdiv (fsub (Fin 4) (Fin 0)) (Fin 4) = Inr s \<and>
      bounds = ''ST_Segmentize(ST_MakeEnvelope('' @ ''#'' @ '', '' @ ''#'' @ '', '' @
               ''#'' @ '', '' @ ''#'' @ '', 3857),'' @ ''#'' @ '')'' \<and>
      envelopeToBoundsSQL (\<lambda>f. ''#'') 1 [?T, ?E] =
        (Inr bounds, [?T, ?E][1 := ([?T, ?E] ! 1)(''segSize'' \<mapsto> OFloat s)]) \<and>
      format_tmpl (\<lambda>f. ''#'') sql_tmpl (([?T, ?E] ! 0)(''env'' \<mapsto> OStr bounds)) = Inr sql \<and>
      envelopeToSQL (\<lambda>f. ''#'') 0 1 [?T, ?E] =
        (Inr sql,
         [?T, ?E][1 := ([?T, ?E] ! 1)(''segSize'' \<mapsto> OFloat s)] @
         [([?T, ?E] ! 0)(''env'' \<mapsto> OStr bounds)]) \<and>
      snd (envelopeToSQL (\<lambda>f. ''#'') 0 1 [?T, ?E]) ! 1 =
        ([?T, ?E] ! 1)(''segSize'' \<mapsto> OFloat s) \<and>
      snd (envelopeToSQL (\<lambda>f. ''#'') 0 1 [?T, ?E]) ! 0 = [?T, ?E] ! 0 \<and>
      (\<forall>i<length [?T, ?E]. i \<noteq> 1 \<longrightarrow>
         snd (envelopeToSQL (\<lambda>f. ''#'') 0 1 [?T, ?E]) ! i = [?T, ?E] ! i)"
    by (rule densifier_updates_envelope_in_place
          [where g = "OStr ''geom''" and ac = "OStr ''id''" and tb = "OStr ''roads''"
             and sr = "OStr ''4326''"])
       simp_all
  then obtain s bounds sql where
    s: "fdiv (fsub (Fin 4) (Fin 0)) (Fin 4) = Inr s"
    and b: "bounds = ''ST_Segmentize(ST_MakeEnvelope('' @ ''#'' @ '', '' @ ''#'' @ '', '' @
               ''#'' @ '', '' @ ''#'' @ '', 3857),'' @ ''#'' @ '')''"
    and 1: "envelopeToBoundsSQL (\<lambda>f. ''#'') 1 [?T, ?E] =
        (Inr bounds, [?T, ?E][1 := ([?T, ?E] ! 1)(''segSize'' \<mapsto> OFloat s)])"
    and 2: "envelopeToSQL (\<lambda>f. ''#'') 0 1 [?T, ?E] =
        (Inr sql,
         [?T, ?E][1 := ([?T, ?E] ! 1)(''segSize'' \<mapsto> OFloat s)] @
         [([?T, ?E] ! 0)(''env'' \<mapsto> OStr bounds)])"
    by blast
  from s have s1: "s = Fin 1" by (simp add: seg_example)
  from 1 2 show ?thesis unfolding s1 b by simp
qed

text \<open>
  The claim as stated, that densification leaves its input envelope unchanged, fails on
  any envelope: the object that held four entries holds \<^verbatim>\<open>segSize\<close> after the call.
\<close>

theorem densifier_input_unchanged_counterexample:
  "[''xmin'' \<mapsto> OFloat (Fin 0), ''ymin'' \<mapsto> OFloat (Fin 0),
    ''xmax'' \<mapsto> OFloat (Fin 4), ''ymax'' \<mapsto> OFloat (Fin 4)] ''segSize'' = None \<and>
   (snd (envelopeToBoundsSQL (\<lambda>f. []) 0
      [[''xmin'' \<mapsto> OFloat (Fin 0), ''ymin'' \<mapsto> OFloat (Fin 0),
        ''xmax'' \<mapsto> OFloat (Fin 4), ''ymax'' \<mapsto> OFloat (Fin 4)]]) ! 0) ''segSize''
     = Some (OFloat (Fin 1))"
  using envelope_input_changed by simp

subsection \<open>Determinism of the query\<close>

lemma bnd_lift: "bnd (lift r) f h = (case r of Inl e \<Rightarrow> (Inl e, h) | Inr x \<Rightarrow> f x h)"
  by (simp add: bnd_def lift_def split: sum.splits)

lemma bnd_setitem_last:
  "bnd (setitem (length h) k v) f (h @ [d]) = f () (h @ [d(k \<mapsto> v)])"
  by (simp add: bnd_def setitem_last)

lemma bnd_new_dict: "bnd new_dict f h = f (length h) (h @ [Map.empty])"
  by (simp add: bnd_def new_dict_def)

lemma fill_fresh:
  "bnd (lift r1) (\<lambda>v1. bnd (setitem (length h) k1 (OFloat v1)) (\<lambda>_.
   bnd (lift r2) (\<lambda>v2. bnd (setitem (length h) k2 (OFloat v2)) (\<lambda>_.
   bnd (lift r3) (\<lambda>v3. bnd (setitem (length h) k3 (OFloat v3)) (\<lambda>_.
   bnd (lift r4) (\<lambda>v4. bnd (setitem (length h) k4 (OFloat v4)) (\<lambda>_.
   ret (length h))))))))) (h @ [d]) =
   (case r1 of Inl e \<Rightarrow> (Inl e, h @ [d]) | Inr v1 \<Rightarrow>
    case r2 of Inl e \<Rightarrow> (Inl e, h @ [d(k1 \<mapsto> OFloat v1)]) | Inr v2 \<Rightarrow>
    case r3 of Inl e \<Rightarrow> (Inl e, h @ [d(k1 \<mapsto> OFloat v1, k2 \<mapsto> OFloat v2)]) | Inr v3 \<Rightarrow>
    case r4 of Inl e \<Rightarrow> (Inl e, h @ [d(k1 \<mapsto> OFloat v1, k2 \<mapsto> OFloat v2, k3 \<mapsto> OFloat v3)])
    | Inr v4 \<Rightarrow> (Inr (length h),
        h @ [d(k1 \<mapsto> OFloat v1, k2 \<mapsto> OFloat v2, k3 \<mapsto> OFloat v3, k4 \<mapsto> OFloat v4)]))"
  by (cases r1; cases r2; cases r3; cases r4;
      simp only: bnd_lift bnd_setitem_last sum.case ret_def)

lemma tileToEnvelope_cases:
  "(\<exists>e ds. \<forall>h. tileToEnvelope t h = (Inl e, h @ ds)) \<or>
   (\<exists>E. \<forall>h. tileToEnvelope t h = (Inr (length h), h @ [E]))"
proof -
  let ?B = "bindE (subscript t ''zoom'') tile_pow2"
  have pre: "tileToEnvelope t h =
    (case ?B of Inl e \<Rightarrow> (Inl e, h) | Inr wts \<Rightarrow>
     case float_div_num (Fin world_size) wts of Inl e \<Rightarrow> (Inl e, h) | Inr tms \<Rightarrow>
       bnd new_dict (\<lambda>env.
     bnd (lift (bindE (subscript t ''x'') (\<lambda>x.
                bindE (float_times_tile tms x) (\<lambda>w.
                Inr (fadd (Fin (- world_max)) w))))) (\<lambda>xmin.
     bnd (setitem env ''xmin'' (OFloat xmin)) (\<lambda>_.
     bnd (lift (bindE (subscript t ''x'') (\<lambda>x.
                bindE (tile_plus_one x) (\<lambda>x1.
                bindE (float_times_tile tms x1) (\<lambda>w.
                Inr (fadd (Fin (- world_max)) w)))))) (\<lambda>xmax.
     bnd (setitem env ''xmax'' (OFloat xmax)) (\<lambda>_.
     bnd (lift (bindE (subscript t ''y'') (\<lambda>y.
                bindE (tile_plus_one y) (\<lambda>y1.
                bindE (float_times_tile tms y1) (\<lambda>w.
                Inr (fsub (Fin world_max) w)))))) (\<lambda>ymin.
     bnd (setitem env ''ymin'' (OFloat ymin)) (\<lambda>_.
     bnd (lift (bindE (subscript t ''y'') (\<lambda>y.
                bindE (float_times_tile tms y) (\<lambda>w.
                Inr (fsub (Fin world_max) w))))) (\<lambda>ymax.
     bnd (setitem env ''ymax'' (OFloat ymax)) (\<lambda>_.
     ret env))))))))) h)" for h
    unfolding tileToEnvelope_def
    by (simp only: worldMercMax_val worldMercMin_val worldMercSize_val monad_simps bnd_lift
        sum.case)
  show ?thesis
  proof (cases ?B)
    case (Inl e)
    then have "\<forall>h. tileToEnvelope t h = (Inl e, h @ [])" by (simp add: pre)
    then show ?thesis by blast
  next
    case B: (Inr wts)
    show ?thesis
    proof (cases "float_div_num (Fin world_size) wts")
      case (Inl e)
      then have "\<forall>h. tileToEnvelope t h = (Inl e, h @ [])" using B by (simp add: pre)
      then show ?thesis by blast
    next
      case C: (Inr tms)
      let ?r1 = "bindE (subscript t ''x'') (\<lambda>x.
                bindE (float_times_tile tms x) (\<lambda>w.
                Inr (fadd (Fin (- world_max)) w)))"
      let ?r2 = "bindE (subscript t ''x'') (\<lambda>x.
                bindE (tile_plus_one x) (\<lambda>x1.
                bindE (float_times_tile tms x1) (\<lambda>w.
                Inr (fadd (Fin (- world_max)) w))))"
      let ?r3 = "bindE (subscript t ''y'') (\<lambda>y.
                bindE (tile_plus_one y) (\<lambda>y1.
                bindE (float_times_tile tms y1) (\<lambda>w.
                Inr (fsub (Fin world_max) w))))"
      let ?r4 = "bindE (subscript t ''y'') (\<lambda>y.
                bindE (float_times_tile tms y) (\<lambda>w.
                Inr (fsub (Fin world_max) w)))"
      have nf: "tileToEnvelope t h =
        (case ?r1 of Inl e \<Rightarrow> (Inl e, h @ [Map.empty]) | Inr v1 \<Rightarrow>
         case ?r2 of Inl e \<Rightarrow> (Inl e, h @ [[''xmin'' \<mapsto> OFloat v1]]) | Inr v2 \<Rightarrow>
         case ?r3 of Inl e \<Rightarrow> (Inl e, h @ [[''xmin'' \<mapsto> OFloat v1, ''xmax'' \<mapsto> OFloat v2]]) | Inr v3 \<Rightarrow>
         case ?r4 of Inl e \<Rightarrow> (Inl e, h @ [[''xmin'' \<mapsto> OFloat v1, ''xmax'' \<mapsto> OFloat v2, ''ymin'' \<mapsto> OFloat v3]])
         | Inr v4 \<Rightarrow> (Inr (length h),
            h @ [[''xmin'' \<mapsto> OFloat v1, ''xmax'' \<mapsto> OFloat v2, ''ymin'' \<mapsto> OFloat v3, ''ymax'' \<mapsto> OFloat v4]]))" for h
        by (simp only: pre B C sum.case bnd_new_dict fill_fresh)
      show ?thesis
        by (cases ?r1; cases ?r2; cases ?r3; cases ?r4; simp only: nf sum.case; blast)
    qed
  qed
qed

lemma envelopeToSQL_canonical:
  assumes "T < length h"
  shows "fst (envelopeToSQL repr T (length h) (h @ [E])) = fst (envelopeToSQL repr 0 1 [h ! T, E])"
  using assms
  by (auto simp add: envelopeToSQL_def envelopeToBoundsSQL_def dict_copy_def bnd_def get_dict_def
      getitem_def setitem_def lift_def nth_append split: sum.splits prod.splits)

lemma build_query_canonical:
  assumes "T < length h"
  shows "fst (build_query repr T t h) = fst (build_query repr 0 t [h ! T])"
  using tileToEnvelope_cases[of t] assms envelopeToSQL_canonical[OF assms, of repr]
    envelopeToSQL_canonical[of 0 "[h ! T]" repr]
  by (auto simp add: build_query_def bnd_def)

lemma envelopeToSQL_length: "length h \<le> length (snd (envelopeToSQL repr T env h))"
proof (cases "T < length h")
  case False
  then show ?thesis by (simp add: envelopeToSQL_def dict_copy_def bnd_def get_dict_def)
next
  case True
  obtain r h1 where e: "envelopeToBoundsSQL repr env (h @ [h ! T]) = (r, h1)" by fastforce
  have l: "length h1 = Suc (length h)"
    using envelopeToBoundsSQL_frame[of repr env "h @ [h ! T]"] e by simp
  show ?thesis
    using True e l
    by (cases r) (auto simp add: envelopeToSQL_def dict_copy_def bnd_def get_dict_def
        setitem_def lift_def)
qed

lemma build_query_frame:
  assumes "T < length h"
  shows "T < length (snd (build_query repr T t h)) \<and> snd (build_query repr T t h) ! T = h ! T"
proof -
  from tileToEnvelope_cases[of t] show ?thesis
  proof (elim disjE exE)
    fix e ds assume "\<forall>h. tileToEnvelope t h = (Inl e, h @ ds)"
    then show ?thesis using assms by (simp add: build_query_def bnd_def nth_append)
  next
    fix E assume a: "\<forall>h. tileToEnvelope t h = (Inr (length h), h @ [E])"
    have 1: "snd (envelopeToSQL repr T (length h) (h @ [E])) ! T = (h @ [E]) ! T"
      using assms by (intro envelopeToSQL_frame) auto
    have 2: "length (h @ [E]) \<le> length (snd (envelopeToSQL repr T (length h) (h @ [E])))"
      by (rule envelopeToSQL_length)
    show ?thesis using a assms 1 2 by (simp add: build_query_def bnd_def nth_append)
  qed
qed

lemma build_query_deterministic:
  assumes "T1 < length h1" and "T2 < length h2" and "h1 ! T1 = h2 ! T2"
  shows "fst (build_query repr T1 t h1) = fst (build_query repr T2 t h2)"
  using build_query_canonical[OF assms(1), of repr t] build_query_canonical[OF assms(2), of repr t]
    assms(3) by simp

lemma build_query_repeat:
  assumes "T < length h"
  shows "fst (build_query repr T t (snd (build_query repr T t h))) = fst (build_query repr T t h)"
  using build_query_frame[OF assms, of repr t]
  by (intro build_query_deterministic) (auto simp add: assms)

lemma format_bounds:
  assumes "kw ''xmin'' = Some a" and "kw ''ymin'' = Some c" and "kw ''xmax'' = Some b"
    and "kw ''ymax'' = Some d" and "kw ''segSize'' = Some s"
  shows "\<exists>qtext. format_tmpl repr bounds_tmpl kw = Inr qtext"
  using assms by (simp add: bounds_tmpl_def subscript_def bindE_simps)

lemma envelopeToSQL_returns:
  assumes "env < length h" and "T < length h"
    and "(h ! env) ''xmin'' = Some (OFloat a)" and "(h ! env) ''xmax'' = Some (OFloat b)"
    and "(h ! env) ''ymin'' = Some (OFloat c)" and "(h ! env) ''ymax'' = Some (OFloat d)"
    and "(h ! T) ''geomColumn'' = Some g" and "(h ! T) ''attrColumns'' = Some ac"
    and "(h ! T) ''table'' = Some tb" and "(h ! T) ''srid'' = Some sr"
  shows "\<exists>sql. fst (envelopeToSQL repr T env h) = Inr sql"
proof -
  let ?h0 = "h @ [h ! T]"
  obtain s where s: "fdiv (fsub b a) (Fin 4) = Inr s" using fdiv_4 by blast
  have 0: "env < length ?h0" "(?h0 ! env) ''xmin'' = Some (OFloat a)"
    "(?h0 ! env) ''xmax'' = Some (OFloat b)" "(?h0 ! env) ''ymin'' = Some (OFloat c)"
    "(?h0 ! env) ''ymax'' = Some (OFloat d)"
    using assms by (simp_all add: nth_append)
  obtain r h1 where e: "envelopeToBoundsSQL repr env ?h0 = (r, h1)" by fastforce
  from envelopeToBoundsSQL_result[OF 0 s, of repr] e obtain qtext where r: "r = Inr qtext" by simp
  have h1: "h1 = ?h0[env := (?h0 ! env)(''segSize'' \<mapsto> OFloat s)]"
    using envelopeToBoundsSQL_store[OF 0(1-3) s, of repr] e by simp
  have l: "length h1 = Suc (length h)" using h1 by simp
  have t: "h1 ! length h = h ! T" using h1 assms(1) by (simp add: nth_append)
  let ?kw = "(h ! T)(''env'' \<mapsto> OStr qtext)"
  have "\<exists>sql. format_tmpl repr sql_tmpl ?kw = Inr sql"
    using assms(7-10) by (intro format_sql) simp_all
  then show ?thesis
    using assms(1,2) e r l t
    by (auto simp add: envelopeToSQL_def dict_copy_def bnd_def get_dict_def setitem_def lift_def)
qed

lemma build_query_returns:
  assumes t: "t ''zoom'' = Some (TInt z)" "t ''x'' = Some (TInt x)" "t ''y'' = Some (TInt y)"
    and z: "0 \<le> z" "z \<le> 1023" and x: "0 \<le> x" "x < 2 ^ nat z" and y: "0 \<le> y" "y < 2 ^ nat z"
    and T: "T < length h" "(h ! T) ''geomColumn'' = Some g" "(h ! T) ''attrColumns'' = Some ac"
      "(h ! T) ''table'' = Some tb" "(h ! T) ''srid'' = Some sr"
  shows "\<exists>sql. fst (build_query repr T t h) = Inr sql"
proof -
  let ?E = "[''xmin'' \<mapsto> OFloat (fadd (Fin (- world_max)) (fmul (Fin (world_size / 2 ^ nat z)) (to_float x))),
           ''xmax'' \<mapsto> OFloat (fadd (Fin (- world_max)) (fmul (Fin (world_size / 2 ^ nat z)) (to_float (x + 1)))),
           ''ymin'' \<mapsto> OFloat (fsub (Fin world_max) (fmul (Fin (world_size / 2 ^ nat z)) (to_float (y + 1)))),
           ''ymax'' \<mapsto> OFloat (fsub (Fin world_max) (fmul (Fin (world_size / 2 ^ nat z)) (to_float y)))]"
  have e: "tileToEnvelope t h = (Inr (length h), h @ [?E])"
    by (rule tileToEnvelope_vals[OF t z x y])
  have "\<exists>sql. fst (envelopeToSQL repr T (length h) (h @ [?E])) = Inr sql"
    using T by (intro envelopeToSQL_returns) (simp_all add: nth_append)
  then show ?thesis using e by (simp add: build_query_def bnd_def)
qed

text \<open>
  C8. The query text that the Query Builder produces for a tile depends on the tile and
  on the content of the table configuration only: two runs in any two stores, with the
  configuration at any address, give the same result when that content is the same, and a
  second run in the store the first one left gives the same result again.
\<close>

theorem query_construction_deterministic:
  assumes "T1 < length h1" and "T2 < length h2" and "h1 ! T1 = h2 ! T2"
  shows "fst (build_query repr T1 t h1) = fst (build_query repr T2 t h2) \<and>
         fst (build_query repr T1 t (snd (build_query repr T1 t h1))) =
           fst (build_query repr T1 t h1)"
  using build_query_deterministic[OF assms, of repr t] build_query_repeat[OF assms(1), of repr t]
  by simp

theorem query_construction_deterministic_witness:
  "fst (build_query (\<lambda>f. ''#'') 0 (tile_of 9 255 170)
          [[''table'' \<mapsto> OStr ''roads'', ''srid'' \<mapsto> OStr ''4326'',
            ''geomColumn'' \<mapsto> OStr ''geom'', ''attrColumns'' \<mapsto> OStr ''id'']]) =
   fst (build_query (\<lambda>f. ''#'') 1 (tile_of 9 255 170)
          [Map.empty,
           [''table'' \<mapsto> OStr ''roads'', ''srid'' \<mapsto> OStr ''4326'',
            ''geomColumn'' \<mapsto> OStr ''geom'', ''attrColumns'' \<mapsto> OStr ''id'']]) \<and>
   (\<exists>sql. fst (build_query (\<lambda>f. ''#'') 0 (tile_of 9 255 170)
          [[''table'' \<mapsto> OStr ''roads'', ''srid'' \<mapsto> OStr ''4326'',
            ''geomColumn'' \<mapsto> OStr ''geom'', ''attrColumns'' \<mapsto> OStr ''id'']]) = Inr sql)"
proof -
  have r: "\<exists>sql. fst (build_query (\<lambda>f. ''#'') 0 (tile_of 9 255 170)
          [[''table'' \<mapsto> OStr ''roads'', ''srid'' \<mapsto> OStr ''4326'',
            ''geomColumn'' \<mapsto> OStr ''geom'', ''attrColumns'' \<mapsto> OStr ''id'']]) = Inr sql"
    by (rule build_query_returns[OF tile_of_simps(1-3)]) simp_all
  have d: "fst (build_query (\<lambda>f. ''#'') 0 (tile_of 9 255 170)
          [[''table'' \<mapsto> OStr ''roads'', ''srid'' \<mapsto> OStr ''4326'',
            ''geomColumn'' \<mapsto> OStr ''geom'', ''attrColumns'' \<mapsto> OStr ''id'']]) =
     fst (build_query (\<lambda>f. ''#'') 1 (tile_of 9 255 170)
          [Map.empty,
           [''table'' \<mapsto> OStr ''roads'', ''srid'' \<mapsto> OStr ''4326'',
            ''geomColumn'' \<mapsto> OStr ''geom'', ''attrColumns'' \<mapsto> OStr ''id'']])"
    using query_construction_deterministic[of 0
      "[[''table'' \<mapsto> OStr ''roads'', ''srid'' \<mapsto> OStr ''4326'',
            ''geomColumn'' \<mapsto> OStr ''geom'', ''attrColumns'' \<mapsto> OStr ''id'']]" 1
      "[Map.empty, [''table'' \<mapsto> OStr ''roads'', ''srid'' \<mapsto> OStr ''4326'',
            ''geomColumn'' \<mapsto> OStr ''geom'', ''attrColumns'' \<mapsto> OStr ''id'']]"
      "\<lambda>f. ''#''" "tile_of 9 255 170"]
    by simp
  from d r show ?thesis by (rule conjI)
qed

end
